theory Spec2Isabelle
  imports Complex_Main "HOL-Library.AList" "HOL-Library.Product_Lexorder"
begin

text \<open>
  A model of the dataset assembly of \<open>src/preprocessing/create_ml_dataset_v3.py\<close>
  (steps 3, 4 and 7 to 9 of the script) and of the calendar flags of
  \<open>src/models/predict_v3.py\<close>. The script is one flat module: each stage is modelled
  as a function named after the variable the stage assigns. A Python exception is a value
  \<open>Inl e\<close>; a value that pandas holds as NaN or None is \<open>None\<close>.
  Floating-point numbers are modelled as exact reals, and the results of the geometry
  library (re-projection, distance, length) are inputs of the model.
\<close>

section \<open>Errors\<close>

datatype error = KeyError | IndexError | ValueError

fun map_err :: "('a \<Rightarrow> error + 'b) \<Rightarrow> 'a list \<Rightarrow> error + 'b list" where
  "map_err f [] = Inr []"
| "map_err f (x # xs) =
     (case f x of
        Inl e \<Rightarrow> Inl e
      | Inr y \<Rightarrow> (case map_err f xs of Inl e \<Rightarrow> Inl e | Inr ys \<Rightarrow> Inr (y # ys)))"

section \<open>Calendar features of a timestamp\<close>

text \<open>
  A pandas \<open>Timestamp\<close> without time zone is the number of nanoseconds since
  1970-01-01T00:00, a Thursday. Equality and order of timestamps are those of the
  numbers; \<open>ts.hour\<close> and \<open>ts.weekday()\<close> (Monday is 0) read the wall clock.
\<close>

type_synonym timestamp = int

definition ns_per_hour :: int where
  "ns_per_hour = 3600 * 1000000000"

definition ts_hour :: "timestamp \<Rightarrow> int" where
  "ts_hour ts = (ts div ns_per_hour) mod 24"

definition ts_weekday :: "timestamp \<Rightarrow> int" where
  "ts_weekday ts = (ts div (24 * ns_per_hour) + 3) mod 7"

text \<open>
  \<open>create_ml_dataset_v3.py\<close>, lines 417 and 418: chained comparisons on the hour.
\<close>

definition train_is_rush_hour_morning :: "int \<Rightarrow> bool" where
  "train_is_rush_hour_morning h = (7 \<le> h \<and> h \<le> 9)"

definition train_is_rush_hour_evening :: "int \<Rightarrow> bool" where
  "train_is_rush_hour_evening h = (17 \<le> h \<and> h \<le> 19)"

text \<open>
  \<open>predict_v3.py\<close>, lines 169 and 170: membership in a list literal, turned into
  0 or 1 by \<open>int(...)\<close>.
\<close>

definition py_int_of_bool :: "bool \<Rightarrow> int" where
  "py_int_of_bool b = (if b then 1 else 0)"

definition predict_is_rush_hour_morning :: "int \<Rightarrow> int" where
  "predict_is_rush_hour_morning h = py_int_of_bool (h \<in> set [7, 8, 9])"

definition predict_is_rush_hour_evening :: "int \<Rightarrow> int" where
  "predict_is_rush_hour_evening h = py_int_of_bool (h \<in> set [17, 18, 19])"

section \<open>Strings of raw attributes\<close>

text \<open>
  An OSM tag value is a Python \<open>str\<close>. The model covers the strings over the code
  points U+0000 to U+00FF, one \<open>char\<close> per code point, with Python's classification
  of exactly these code points: \<open>str.isdigit\<close> accepts the decimal digits 0 to 9 and
  the superscript digits U+00B2, U+00B3 and U+00B9; \<open>int\<close> reads decimal digits only;
  \<open>str.lower\<close> maps A to Z, and U+00C0 to U+00DE without U+00D7, 32 places up.
\<close>

definition py_isdigit_char :: "char \<Rightarrow> bool" where
  "py_isdigit_char c =
     (let n = (of_char c :: nat)
      in (48 \<le> n \<and> n \<le> 57) \<or> n = 178 \<or> n = 179 \<or> n = 185)"

definition py_isdigit :: "string \<Rightarrow> bool" where
  "py_isdigit s = (s \<noteq> [] \<and> list_all py_isdigit_char s)"

definition py_isdecimal_char :: "char \<Rightarrow> bool" where
  "py_isdecimal_char c = (let n = (of_char c :: nat) in 48 \<le> n \<and> n \<le> 57)"

definition digit_value :: "char \<Rightarrow> int" where
  "digit_value c = int (of_char c) - 48"

text \<open>
  \<open>int(s)\<close> for a string without sign, blank or underscore (the script calls it only
  where \<open>isdigit\<close> holds, which excludes them): the number the decimal digits write,
  ValueError when the string is empty or has another character. The interpreter's
  optional bound on the length of a literal is outside the model.
\<close>

definition py_int :: "string \<Rightarrow> error + int" where
  "py_int s =
     (if s \<noteq> [] \<and> list_all py_isdecimal_char s
      then Inr (foldl (\<lambda>acc c. 10 * acc + digit_value c) 0 s)
      else Inl ValueError)"

definition py_lower_char :: "char \<Rightarrow> char" where
  "py_lower_char c =
     (let n = (of_char c :: nat)
      in if (65 \<le> n \<and> n \<le> 90) \<or> (192 \<le> n \<and> n \<le> 214) \<or> (216 \<le> n \<and> n \<le> 222)
         then char_of (n + 32) else c)"

definition py_lower :: "string \<Rightarrow> string" where
  "py_lower s = map py_lower_char s"

definition fillna :: "'a \<Rightarrow> 'a option \<Rightarrow> 'a" where
  "fillna d v = (case v of None \<Rightarrow> d | Some x \<Rightarrow> x)"

section \<open>Static features of an edge (step 7)\<close>

type_synonym point = "real \<times> real"

text \<open>
  \<open>np.arctan2(dy, dx)\<close>, the angle of the vector \<open>(dx, dy)\<close> in \<open>(-pi, pi]\<close>, with
  \<open>arctan2(0, 0) = 0\<close>; signed zeros are outside the model.
\<close>

definition arctan2 :: "real \<Rightarrow> real \<Rightarrow> real" where
  "arctan2 y x =
     (if 0 < x then arctan (y / x)
      else if x < 0 \<and> 0 \<le> y then arctan (y / x) + pi
      else if x < 0 \<and> y < 0 then arctan (y / x) - pi
      else if 0 < y then pi / 2
      else if y < 0 then - (pi / 2)
      else 0)"

definition degrees :: "real \<Rightarrow> real" where
  "degrees r = r * 180 / pi"

text \<open>Lines 286 to 301: the chain of comparisons under the comment "Categoriser".\<close>

definition categorize_angle :: "real \<Rightarrow> string" where
  "categorize_angle angle =
     (if angle < 22.5 \<or> angle \<ge> 337.5 then ''E''
      else if angle < 67.5 then ''NE''
      else if angle < 112.5 then ''N''
      else if angle < 157.5 then ''NW''
      else if angle < 202.5 then ''W''
      else if angle < 247.5 then ''SW''
      else if angle < 292.5 then ''S''
      else ''SE'')"

text \<open>Lines 279 to 283: the angle in degrees, moved into \<open>[0, 360)\<close>.\<close>

definition bearing :: "point list \<Rightarrow> real" where
  "bearing coords =
     (let dx = fst (last coords) - fst (hd coords);
          dy = snd (last coords) - snd (hd coords);
          angle = degrees (arctan2 dy dx)
      in if angle < 0 then angle + 360 else angle)"

definition calc_orientation :: "point list \<Rightarrow> string option" where
  "calc_orientation coords =
     (if length coords < 2 then None else Some (categorize_angle (bearing coords)))"

definition categorize_road :: "string \<Rightarrow> string" where
  "categorize_road highway_type =
     (if highway_type \<in> set [''motorway'', ''trunk''] then ''major''
      else if highway_type \<in> set [''primary'', ''secondary''] then ''arterial''
      else if highway_type \<in> set [''tertiary'', ''residential''] then ''local''
      else if highway_type \<in> set [''cycleway'', ''path''] then ''bike_path''
      else ''other'')"

text \<open>
  Lines 322 to 328: \<open>int(x) if pd.notna(x) and str(x).isdigit() else 50\<close>, and the same
  with 2 for the lane count.
\<close>

definition maxspeed_kmh_of :: "string option \<Rightarrow> error + int" where
  "maxspeed_kmh_of x =
     (case x of
        None \<Rightarrow> Inr 50
      | Some s \<Rightarrow> if py_isdigit s then py_int s else Inr 50)"

definition lanes_of :: "string option \<Rightarrow> error + int" where
  "lanes_of x =
     (case x of
        None \<Rightarrow> Inr 2
      | Some s \<Rightarrow> if py_isdigit s then py_int s else Inr 2)"

definition categorize_surface :: "string option \<Rightarrow> string" where
  "categorize_surface surface =
     (case surface of
        None \<Rightarrow> ''unknown''
      | Some s \<Rightarrow>
          (let surface = py_lower s
           in if surface \<in> set [''asphalt'', ''paved''] then ''good''
              else if surface \<in> set [''concrete'', ''paving_stones''] then ''medium''
              else ''poor''))"

text \<open>
  A row of \<open>edges_lam\<close>: the raw tags (None where the column holds NaN), the
  coordinates of the geometry in the planar reference system, and the columns that
  step 5 and the geometry library fill in.
\<close>

record osm_edge =
  o_osm_id :: int
  o_coords :: "point list"
  o_highway :: "string option"
  o_maxspeed :: "string option"
  o_lanes :: "string option"
  o_oneway :: "string option"
  o_cycleway :: "string option"
  o_surface :: "string option"
  o_bicycle :: "string option"
  o_lit :: "string option"
  o_has_dedicated_bike_lane :: bool
  o_bike_lane_distance_m :: real
  o_edge_length_m :: real
  o_distance_to_center_km :: real

text \<open>
  The static columns of an edge after step 7, the entries of \<open>edges_dict[osm_id]\<close>
  (without the name and the geometry, which nothing below reads).
\<close>

record edge_row =
  e_highway_type :: string
  e_road_category :: string
  e_lanes :: int
  e_maxspeed_kmh :: int
  e_is_oneway :: bool
  e_has_cycleway :: bool
  e_cycleway_type :: string
  e_has_dedicated_bike_lane :: bool
  e_bike_lane_distance_m :: real
  e_surface_quality :: string
  e_bicycle_access :: string
  e_is_lit :: bool
  e_edge_length_m :: real
  e_distance_to_center_km :: real
  e_orientation :: "string option"

definition edge_row_of :: "osm_edge \<Rightarrow> error + edge_row" where
  "edge_row_of row =
     (let highway_type = fillna ''unknown'' (o_highway row)
      in case maxspeed_kmh_of (o_maxspeed row) of
           Inl e \<Rightarrow> Inl e
         | Inr maxspeed \<Rightarrow>
            (case lanes_of (o_lanes row) of
               Inl e \<Rightarrow> Inl e
             | Inr lanes \<Rightarrow>
                 Inr \<lparr> e_highway_type = highway_type,
                       e_road_category = categorize_road highway_type,
                       e_lanes = lanes,
                       e_maxspeed_kmh = maxspeed,
                       e_is_oneway = (o_oneway row = Some ''yes''),
                       e_has_cycleway = (o_cycleway row \<noteq> None),
                       e_cycleway_type = fillna ''none'' (o_cycleway row),
                       e_has_dedicated_bike_lane = o_has_dedicated_bike_lane row,
                       e_bike_lane_distance_m = o_bike_lane_distance_m row,
                       e_surface_quality = categorize_surface (o_surface row),
                       e_bicycle_access = fillna ''yes'' (o_bicycle row),
                       e_is_lit = (o_lit row = Some ''yes''),
                       e_edge_length_m = o_edge_length_m row,
                       e_distance_to_center_km = o_distance_to_center_km row,
                       e_orientation = calc_orientation (o_coords row) \<rparr>))"

text \<open>
  Lines 306 to 347 and 376 to 378: the static columns of every row, then
  \<open>edges_dict[row['osm_id']] = row.to_dict()\<close> for every row in order, a later row
  replacing an earlier one with the same identifier. The dictionary is the list of its
  entries.
\<close>

fun edges_dict_loop ::
  "osm_edge list \<Rightarrow> (int \<times> edge_row) list \<Rightarrow> error + (int \<times> edge_row) list" where
  "edges_dict_loop [] d = Inr d"
| "edges_dict_loop (row # rows) d =
     (case edge_row_of row of
        Inl e \<Rightarrow> Inl e
      | Inr r \<Rightarrow> edges_dict_loop rows (AList.update (o_osm_id row) r d))"

definition edges_dict :: "osm_edge list \<Rightarrow> error + (int \<times> edge_row) list" where
  "edges_dict edges_gdf = edges_dict_loop edges_gdf []"

section \<open>Sensors and their edges (step 3)\<close>

text \<open>
  An entry of \<open>sensors_info\<close>, as \<open>fetch_bike_counters.py\<close> writes it (lines 75 to
  82): the keys are always there, and \<open>lat\<close> and \<open>lon\<close> hold a number or null.
\<close>

record sensor_info =
  i_name :: string
  i_lat :: "real option"
  i_lon :: "real option"

record sensor =
  s_counter_id :: string
  s_name :: string
  s_geometry :: point

text \<open>The truth value Python gives a number or None in a condition.\<close>

definition truthy :: "real option \<Rightarrow> bool" where
  "truthy v = (case v of None \<Rightarrow> False | Some x \<Rightarrow> x \<noteq> 0)"

text \<open>
  Lines 85 to 92. \<open>sensors_info.items()\<close> is the list of the dictionary's entries, in
  order; the point is \<open>Point(lon, lat)\<close>.
\<close>

fun sensors_list :: "(string \<times> sensor_info) list \<Rightarrow> sensor list" where
  "sensors_list [] = []"
| "sensors_list ((counter_id, info) # rest) =
     (if truthy (i_lat info) \<and> truthy (i_lon info)
      then \<lparr> s_counter_id = counter_id, s_name = i_name info,
             s_geometry = (the (i_lon info), the (i_lat info)) \<rparr> # sensors_list rest
      else sensors_list rest)"

text \<open>
  \<open>to_crs\<close> moves every point to the planar reference system; the projection is an
  input of the model.
\<close>

definition sensors_lam :: "(point \<Rightarrow> point) \<Rightarrow> sensor list \<Rightarrow> sensor list" where
  "sensors_lam to_crs sensors_gdf =
     map (\<lambda>s. s\<lparr> s_geometry := to_crs (s_geometry s) \<rparr>) sensors_gdf"

record association =
  a_edge_id :: int
  a_distance_m :: real
  a_sensor_name :: string

definition MAX_DISTANCE :: real where
  "MAX_DISTANCE = 50"

text \<open>
  \<open>Series.idxmin\<close> on the default index: the position of the first occurrence of the
  minimum, ValueError on an empty series.
\<close>

definition idxmin :: "real list \<Rightarrow> error + nat" where
  "idxmin distances =
     (if distances = [] then Inl ValueError
      else Inr (length (takeWhile (\<lambda>d. d \<noteq> Min (set distances)) distances)))"

text \<open>\<open>round(x, 1)\<close>: to one decimal place, a tie to the even neighbour.\<close>

definition py_round1 :: "real \<Rightarrow> real" where
  "py_round1 x =
     (let y = x * 10; f = \<lfloor>y\<rfloor>; r = y - of_int f
      in of_int (if r < 1 / 2 then f
                 else if 1 / 2 < r then f + 1
                 else if even f then f else f + 1) / 10)"

text \<open>
  Lines 105 to 116, one turn of the loop. \<open>distance\<close> is the planar distance of the
  geometry library between an edge geometry and a point.
\<close>

definition match_sensor ::
  "(point list \<Rightarrow> point \<Rightarrow> real) \<Rightarrow> osm_edge list \<Rightarrow> (string \<times> association) list \<Rightarrow>
   sensor \<Rightarrow> error + (string \<times> association) list" where
  "match_sensor distance edges_lam acc sensor =
     (let distances = map (\<lambda>e. distance (o_coords e) (s_geometry sensor)) edges_lam
      in case idxmin distances of
           Inl e \<Rightarrow> Inl e
         | Inr min_dist_idx \<Rightarrow>
            (let min_dist = distances ! min_dist_idx
             in if min_dist \<le> MAX_DISTANCE
                then Inr (AList.update (s_counter_id sensor)
                       \<lparr> a_edge_id = o_osm_id (edges_lam ! min_dist_idx),
                         a_distance_m = py_round1 min_dist,
                         a_sensor_name = s_name sensor \<rparr> acc)
                else Inr acc))"

fun sensor_to_edge_loop ::
  "(point list \<Rightarrow> point \<Rightarrow> real) \<Rightarrow> osm_edge list \<Rightarrow> sensor list \<Rightarrow>
   (string \<times> association) list \<Rightarrow> error + (string \<times> association) list" where
  "sensor_to_edge_loop distance edges_lam [] acc = Inr acc"
| "sensor_to_edge_loop distance edges_lam (sensor # rest) acc =
     (case match_sensor distance edges_lam acc sensor of
        Inl e \<Rightarrow> Inl e
      | Inr acc' \<Rightarrow> sensor_to_edge_loop distance edges_lam rest acc')"

definition sensor_to_edge ::
  "(point list \<Rightarrow> point \<Rightarrow> real) \<Rightarrow> osm_edge list \<Rightarrow> sensor list \<Rightarrow>
   error + (string \<times> association) list" where
  "sensor_to_edge distance edges_lam sensors = sensor_to_edge_loop distance edges_lam sensors []"

text \<open>
  Line 120: \<open>list(set(...))\<close>, the distinct edge identifiers. Python fixes no order
  for them; the model lists them by first occurrence, and nothing proved below depends
  on the order.
\<close>

definition edges_with_sensors :: "(string \<times> association) list \<Rightarrow> int list" where
  "edges_with_sensors s2e = remdups (map (\<lambda>(c, info). a_edge_id info) s2e)"

section \<open>Count records (step 4) and the count lookup (step 8)\<close>

record bike_record =
  b_counter_id :: string
  b_timestamp :: timestamp
  b_count :: int

record bike_row = bike_record +
  b_edge_id :: int

text \<open>
  Lines 154 to 157: \<open>sensor_to_edge.get(x, {}).get('edge_id')\<close> on every record, and
  the records without an edge dropped.
\<close>

definition bike_df :: "(string \<times> association) list \<Rightarrow> bike_record list \<Rightarrow> bike_row list" where
  "bike_df s2e all_bike_records =
     List.map_filter
       (\<lambda>r. case map_of s2e (b_counter_id r) of
               None \<Rightarrow> None
             | Some info \<Rightarrow>
                 Some \<lparr> b_counter_id = b_counter_id r, b_timestamp = b_timestamp r,
                        b_count = b_count r, b_edge_id = a_edge_id info \<rparr>)
       all_bike_records"

text \<open>Line 370: \<open>sorted(bike_df['timestamp'].unique())\<close>.\<close>

definition timestamps :: "bike_row list \<Rightarrow> timestamp list" where
  "timestamps df = sort (remdups (map b_timestamp df))"

text \<open>
  Lines 380 to 385. The counts are Python integers; a key is created with 0 and the
  count of the row is added to it.
\<close>

fun bike_lookup_loop ::
  "bike_row list \<Rightarrow> (int \<times> timestamp \<rightharpoonup> int) \<Rightarrow> (int \<times> timestamp \<rightharpoonup> int)" where
  "bike_lookup_loop [] lookup = lookup"
| "bike_lookup_loop (row # rows) lookup =
     (let key = (b_edge_id row, b_timestamp row);
          lookup = (if lookup key = None then lookup(key \<mapsto> 0) else lookup)
      in bike_lookup_loop rows
           (lookup(key \<mapsto> (case lookup key of None \<Rightarrow> 0 | Some c \<Rightarrow> c) + b_count row)))"

definition bike_lookup :: "bike_row list \<Rightarrow> (int \<times> timestamp \<rightharpoonup> int)" where
  "bike_lookup df = bike_lookup_loop df Map.empty"

section \<open>Weather lookup and the training grid (step 8)\<close>

record weather =
  w_timestamp :: timestamp
  w_temperature_c :: "real option"
  w_precipitation_mm :: "real option"
  w_wind_speed_kmh :: "real option"
  w_is_raining :: bool

text \<open>
  \<open>Series.searchsorted(ts)\<close> with the default \<open>side='left'\<close>: the binary search of
  numpy, which does not check that the series is sorted.
\<close>

function bisect_left :: "timestamp list \<Rightarrow> timestamp \<Rightarrow> nat \<Rightarrow> nat \<Rightarrow> nat" where
  "bisect_left a v lo hi =
     (if lo < hi
      then (let mid = lo + (hi - lo) div 2
            in if a ! mid < v then bisect_left a v (mid + 1) hi
               else bisect_left a v lo mid)
      else lo)"
  by pat_completeness auto
termination
  by (relation "measure (\<lambda>(a, v, lo, hi). hi - lo)") auto

declare bisect_left.simps [simp del]

definition searchsorted :: "timestamp list \<Rightarrow> timestamp \<Rightarrow> nat" where
  "searchsorted a v = bisect_left a v 0 (length a)"

text \<open>
  \<open>df.iloc[i]\<close> for an integer: a negative position counts from the end, a position
  outside the frame raises IndexError.
\<close>

definition iloc :: "'a list \<Rightarrow> int \<Rightarrow> error + 'a" where
  "iloc df i =
     (if 0 \<le> i \<and> i < int (length df) then Inr (df ! nat i)
      else if i < 0 \<and> - int (length df) \<le> i then Inr (df ! nat (int (length df) + i))
      else Inl IndexError)"

text \<open>Lines 397 to 401.\<close>

definition weather_row :: "weather list \<Rightarrow> timestamp \<Rightarrow> error + weather" where
  "weather_row weather_df ts =
     (let exact = filter (\<lambda>w. w_timestamp w = ts) weather_df
      in if length exact = 0
         then iloc weather_df (int (searchsorted (map w_timestamp weather_df) ts) - 1)
         else iloc exact 0)"

record training_row =
  edge_id :: int
  timestamp :: timestamp
  hour :: int
  day_of_week :: int
  is_weekend :: bool
  is_rush_hour_morning :: bool
  is_rush_hour_evening :: bool
  temperature_c :: "real option"
  precipitation_mm :: "real option"
  wind_speed_kmh :: "real option"
  is_raining :: bool
  is_cold :: bool
  is_hot :: bool
  is_windy :: bool
  highway_type :: string
  road_category :: string
  lanes :: int
  maxspeed_kmh :: int
  has_cycleway :: bool
  has_dedicated_bike_lane :: bool
  bike_lane_distance_m :: real
  surface_quality :: string
  is_lit :: bool
  edge_length_m :: real
  distance_to_center_km :: real
  orientation :: "string option"
  bike_count :: "int option"

text \<open>Lines 405 to 445: the row of one edge at one timestamp.\<close>

definition make_row ::
  "timestamp \<Rightarrow> weather \<Rightarrow> (int \<rightharpoonup> edge_row) \<Rightarrow> (int \<times> timestamp \<rightharpoonup> int) \<Rightarrow> int \<Rightarrow>
   error + training_row" where
  "make_row ts w edict lookup e =
     (let count = lookup (e, ts)
      in case edict e of
           None \<Rightarrow> Inl KeyError
         | Some edge_row \<Rightarrow>
             Inr \<lparr> edge_id = e,
                   timestamp = ts,
                   hour = ts_hour ts,
                   day_of_week = ts_weekday ts,
                   is_weekend = (ts_weekday ts \<ge> 5),
                   is_rush_hour_morning = train_is_rush_hour_morning (ts_hour ts),
                   is_rush_hour_evening = train_is_rush_hour_evening (ts_hour ts),
                   temperature_c = w_temperature_c w,
                   precipitation_mm = w_precipitation_mm w,
                   wind_speed_kmh = w_wind_speed_kmh w,
                   is_raining = w_is_raining w,
                   is_cold = (case w_temperature_c w of None \<Rightarrow> False | Some t \<Rightarrow> t < 10),
                   is_hot = (case w_temperature_c w of None \<Rightarrow> False | Some t \<Rightarrow> t > 25),
                   is_windy = (case w_wind_speed_kmh w of None \<Rightarrow> False | Some v \<Rightarrow> v > 20),
                   highway_type = e_highway_type edge_row,
                   road_category = e_road_category edge_row,
                   lanes = e_lanes edge_row,
                   maxspeed_kmh = e_maxspeed_kmh edge_row,
                   has_cycleway = e_has_cycleway edge_row,
                   has_dedicated_bike_lane = e_has_dedicated_bike_lane edge_row,
                   bike_lane_distance_m = e_bike_lane_distance_m edge_row,
                   surface_quality = e_surface_quality edge_row,
                   is_lit = e_is_lit edge_row,
                   edge_length_m = e_edge_length_m edge_row,
                   distance_to_center_km = e_distance_to_center_km edge_row,
                   orientation = e_orientation edge_row,
                   bike_count = count \<rparr>)"

text \<open>
  Lines 388 to 447: the outer loop over the timestamps, the inner loop over the edges
  with sensors. An exception in any turn ends the script.
\<close>

fun dataset_rows ::
  "weather list \<Rightarrow> (int \<rightharpoonup> edge_row) \<Rightarrow> (int \<times> timestamp \<rightharpoonup> int) \<Rightarrow> int list \<Rightarrow>
   timestamp list \<Rightarrow> error + training_row list" where
  "dataset_rows weather_df edict lookup ews [] = Inr []"
| "dataset_rows weather_df edict lookup ews (ts # rest) =
     (case weather_row weather_df ts of
        Inl e \<Rightarrow> Inl e
      | Inr w \<Rightarrow>
         (case map_err (make_row ts w edict lookup) ews of
            Inl e \<Rightarrow> Inl e
          | Inr rows \<Rightarrow>
             (case dataset_rows weather_df edict lookup ews rest of
                Inl e \<Rightarrow> Inl e
              | Inr more_rows \<Rightarrow> Inr (rows @ more_rows))))"

text \<open>
  Steps 3 to 8 in the order of the script: the matching, the count records with their
  edges, the static rows, the grid.
\<close>

definition training_grid ::
  "(point list \<Rightarrow> point \<Rightarrow> real) \<Rightarrow> (point \<Rightarrow> point) \<Rightarrow> osm_edge list \<Rightarrow>
   (string \<times> sensor_info) list \<Rightarrow> bike_record list \<Rightarrow> weather list \<Rightarrow>
   error + training_row list" where
  "training_grid distance to_crs edges_lam sensors_info all_bike_records weather_df =
     (case sensor_to_edge distance edges_lam (sensors_lam to_crs (sensors_list sensors_info)) of
        Inl e \<Rightarrow> Inl e
      | Inr s2e \<Rightarrow>
         (let df = bike_df s2e all_bike_records
          in case edges_dict edges_lam of
               Inl e \<Rightarrow> Inl e
             | Inr d \<Rightarrow>
                 dataset_rows weather_df (map_of d) (bike_lookup df) (edges_with_sensors s2e)
                   (timestamps df)))"

section \<open>Lag and rolling features (step 9)\<close>

text \<open>
  Line 459: the frame sorted by edge identifier, then timestamp. The keys of the grid
  are pairwise different, so the sorted frame does not depend on the sorting algorithm.
\<close>

definition sort_values :: "training_row list \<Rightarrow> training_row list" where
  "sort_values df = sort_key (\<lambda>r. (edge_id r, timestamp r)) df"

text \<open>
  \<open>groupby('edge_id')\<close> puts a row in the group of the rows with its edge identifier,
  in the order of the frame. \<open>group_upto df i\<close> is the target column of the group of
  row \<open>i\<close>, up to and including row \<open>i\<close>.
\<close>

definition group_upto :: "training_row list \<Rightarrow> nat \<Rightarrow> int option list" where
  "group_upto df i =
     map bike_count (filter (\<lambda>r. edge_id r = edge_id (df ! i)) (take (Suc i) df))"

text \<open>\<open>shift(n)\<close> at the last row of a group prefix: the value \<open>n\<close> rows before, if any.\<close>

definition shift_at :: "nat \<Rightarrow> int option list \<Rightarrow> int option" where
  "shift_at n g = (if n < length g then g ! (length g - 1 - n) else None)"

text \<open>
  \<open>rolling(window, min_periods).mean()\<close> at the last row of a group prefix: the mean of
  the values that are not null among the last \<open>window\<close> rows, null when fewer than
  \<open>min_periods\<close> of them are not null.
\<close>

definition rolling_mean_at :: "nat \<Rightarrow> nat \<Rightarrow> int option list \<Rightarrow> real option" where
  "rolling_mean_at window min_periods g =
     (let obs = List.map_filter (\<lambda>v. v) (drop (length g - window) g)
      in if length obs < min_periods \<or> obs = [] then None
         else Some (real_of_int (sum_list obs) / real (length obs)))"

text \<open>Lines 461 to 466: the three new columns of the sorted frame.\<close>

definition bike_count_lag_1h :: "training_row list \<Rightarrow> int option list" where
  "bike_count_lag_1h df = map (\<lambda>i. shift_at 1 (group_upto df i)) [0..<length df]"

definition bike_count_lag_24h :: "training_row list \<Rightarrow> int option list" where
  "bike_count_lag_24h df = map (\<lambda>i. shift_at 24 (group_upto df i)) [0..<length df]"

definition bike_count_rolling_7d :: "training_row list \<Rightarrow> real option list" where
  "bike_count_rolling_7d df = map (\<lambda>i. rolling_mean_at 168 1 (group_upto df i)) [0..<length df]"

section \<open>A small run\<close>

text \<open>
  Two parallel edges 1000 m apart, six sensors, three hours of counts and a weather
  series with a gap. In this run the planar distance of a point to an edge is the
  difference of their second coordinates.
\<close>

definition t07 :: timestamp where
  "t07 = 7 * ns_per_hour"

definition t08 :: timestamp where
  "t08 = 8 * ns_per_hour"

definition t09 :: timestamp where
  "t09 = 9 * ns_per_hour"

definition t10 :: timestamp where
  "t10 = 10 * ns_per_hour"

definition ex_edge :: "int \<Rightarrow> real \<Rightarrow> osm_edge" where
  "ex_edge i y =
     \<lparr> o_osm_id = i, o_coords = [(0, y), (100, y)], o_highway = Some ''residential'',
       o_maxspeed = Some ''30'', o_lanes = None, o_oneway = None, o_cycleway = None,
       o_surface = Some ''Asphalt'', o_bicycle = None, o_lit = Some ''yes'',
       o_has_dedicated_bike_lane = False, o_bike_lane_distance_m = 999999,
       o_edge_length_m = 100, o_distance_to_center_km = 1 \<rparr>"

definition ex_edges :: "osm_edge list" where
  "ex_edges = [ex_edge 101 0, ex_edge 202 1000]"

definition ex_distance :: "point list \<Rightarrow> point \<Rightarrow> real" where
  "ex_distance coords p = \<bar>snd p - snd (hd coords)\<bar>"

definition ex_to_crs :: "point \<Rightarrow> point" where
  "ex_to_crs p = (fst p * 1000, snd p * 1000)"

definition ex_info :: "real option \<Rightarrow> real option \<Rightarrow> sensor_info" where
  "ex_info la lo = \<lparr> i_name = ''quai'', i_lat = la, i_lon = lo \<rparr>"

definition ex_sensors_info :: "(string \<times> sensor_info) list" where
  "ex_sensors_info =
     [(''S30'', ex_info (Some 0.03) (Some 0.05)),
      (''S50'', ex_info (Some 0.05) (Some 0.02)),
      (''S51'', ex_info (Some 0.051) (Some 0.02)),
      (''S499'', ex_info (Some 0.9501) (Some 0.05)),
      (''Z0'', ex_info (Some 0) (Some 0.05)),
      (''N0'', ex_info None (Some 0.05))]"

definition ex_sensors :: "sensor list" where
  "ex_sensors = sensors_lam ex_to_crs (sensors_list ex_sensors_info)"

definition ex_assoc :: "int \<Rightarrow> real \<Rightarrow> association" where
  "ex_assoc e d = \<lparr> a_edge_id = e, a_distance_m = d, a_sensor_name = ''quai'' \<rparr>"

definition ex_s2e :: "(string \<times> association) list" where
  "ex_s2e = [(''S30'', ex_assoc 101 30), (''S50'', ex_assoc 101 50), (''S499'', ex_assoc 202 49.9)]"

definition ex_record :: "string \<Rightarrow> timestamp \<Rightarrow> int \<Rightarrow> bike_record" where
  "ex_record c t n = \<lparr> b_counter_id = c, b_timestamp = t, b_count = n \<rparr>"

definition ex_records :: "bike_record list" where
  "ex_records =
     [ex_record ''S30'' t07 3, ex_record ''S50'' t07 5, ex_record ''S499'' t08 6,
      ex_record ''S51'' t08 9, ex_record ''S30'' t09 4]"

definition ex_w :: "timestamp \<Rightarrow> real \<Rightarrow> weather" where
  "ex_w t c =
     \<lparr> w_timestamp = t, w_temperature_c = Some c, w_precipitation_mm = Some 0,
       w_wind_speed_kmh = None, w_is_raining = False \<rparr>"

definition ex_weather :: "weather list" where
  "ex_weather = [ex_w t07 8, ex_w t09 12]"

definition ex_weather_late :: "weather list" where
  "ex_weather_late = [ex_w t08 10, ex_w t09 12, ex_w t10 15]"

text \<open>One edge with the counts 10, 20 and 30 in three consecutive hours.\<close>

definition ex_records_seq :: "bike_record list" where
  "ex_records_seq = [ex_record ''S30'' t07 10, ex_record ''S30'' t08 20, ex_record ''S30'' t09 30]"

definition ex_edge_row :: edge_row where
  "ex_edge_row =
     \<lparr> e_highway_type = ''residential'', e_road_category = ''local'', e_lanes = 2,
       e_maxspeed_kmh = 30, e_is_oneway = False, e_has_cycleway = False,
       e_cycleway_type = ''none'', e_has_dedicated_bike_lane = False,
       e_bike_lane_distance_m = 999999, e_surface_quality = ''good'',
       e_bicycle_access = ''yes'', e_is_lit = True, e_edge_length_m = 100,
       e_distance_to_center_km = 1, e_orientation = Some ''E'' \<rparr>"

definition ex_edict :: "(int \<times> edge_row) list" where
  "ex_edict = [(101, ex_edge_row), (202, ex_edge_row)]"

definition ex_grid_seq :: "training_row list" where
  "ex_grid_seq =
     (case dataset_rows ex_weather (map_of ex_edict) (bike_lookup (bike_df ex_s2e ex_records_seq))
             (edges_with_sensors ex_s2e) (timestamps (bike_df ex_s2e ex_records_seq)) of
        Inl e \<Rightarrow> []
      | Inr rows \<Rightarrow> rows)"

section \<open>Rush-hour flags: training grid against prediction\<close>

text \<open>
  Claim C9. For every integer hour (in particular 0 to 23) the morning and evening
  rush-hour flags of the training grid, the inclusive ranges 7..9 and 17..19, have the
  same truth value as the flags of the prediction script, membership in [7, 8, 9] and
  [17, 18, 19]: the prediction's 0/1 is the integer value of the training's boolean.
  The hour of a timestamp is always one of 0 to 23.
\<close>

theorem rush_hour_flags_agree:
  "predict_is_rush_hour_morning h = py_int_of_bool (train_is_rush_hour_morning h) \<and>
   predict_is_rush_hour_evening h = py_int_of_bool (train_is_rush_hour_evening h) \<and>
   (predict_is_rush_hour_morning h = 1) = train_is_rush_hour_morning h \<and>
   (predict_is_rush_hour_evening h = 1) = train_is_rush_hour_evening h \<and>
   train_is_rush_hour_morning (ts_hour ts) = (ts_hour ts \<in> {7, 8, 9}) \<and>
   train_is_rush_hour_evening (ts_hour ts) = (ts_hour ts \<in> {17, 18, 19}) \<and>
   0 \<le> ts_hour ts \<and> ts_hour ts < 24"
proof -
  have m: "train_is_rush_hour_morning h = (h \<in> set [7, 8, 9])" for h
    unfolding train_is_rush_hour_morning_def by auto
  have e: "train_is_rush_hour_evening h = (h \<in> set [17, 18, 19])" for h
    unfolding train_is_rush_hour_evening_def by auto
  have r: "0 \<le> ts_hour ts \<and> ts_hour ts < 24"
    unfolding ts_hour_def by simp
  show ?thesis
    using m [of h] e [of h] m [of "ts_hour ts"] e [of "ts_hour ts"] r
    unfolding predict_is_rush_hour_morning_def predict_is_rush_hour_evening_def
      py_int_of_bool_def
    by simp
qed

section \<open>Static features on absent and malformed tags\<close>

lemma categorize_surface_null: "categorize_surface None = ''unknown''"
  by (simp add: categorize_surface_def)

lemma categorize_surface_values:
  "categorize_surface (Some s) \<in> {''good'', ''medium'', ''poor''}"
  by (simp add: categorize_surface_def Let_def)

lemma categorize_surface_lower:
  "categorize_surface (Some s) = categorize_surface (Some (py_lower s))"
proof -
  have "py_lower_char (py_lower_char c) = py_lower_char c" for c
  proof -
    have "of_char (char_of (of_char c + 32 :: nat)) = (of_char c + 32 :: nat)"
      if "of_char c \<le> (222 :: nat)"
      using that by (simp add: of_char_of)
    then show ?thesis
      unfolding py_lower_char_def Let_def by auto
  qed
  then have "py_lower (py_lower s) = py_lower s"
    by (simp add: py_lower_def)
  then show ?thesis
    by (simp add: categorize_surface_def)
qed

lemma categorize_surface_examples:
  "categorize_surface (Some ''Asphalt'') = ''good'' \<and>
   categorize_surface (Some ''PAVED'') = ''good'' \<and>
   categorize_surface (Some ''Concrete'') = ''medium'' \<and>
   categorize_surface (Some ''paving_stones'') = ''medium'' \<and>
   categorize_surface (Some ''gravel'') = ''poor''"
  by code_simp

lemma highway_type_missing: "fillna ''unknown'' None = ''unknown''"
  by (simp add: fillna_def)

lemma maxspeed_absent: "maxspeed_kmh_of None = Inr 50" and lanes_absent: "lanes_of None = Inr 2"
  by (simp_all add: maxspeed_kmh_of_def lanes_of_def)

lemma maxspeed_not_digits: "\<not> py_isdigit s \<Longrightarrow> maxspeed_kmh_of (Some s) = Inr 50"
  and lanes_not_digits: "\<not> py_isdigit s \<Longrightarrow> lanes_of (Some s) = Inr 2"
  by (simp_all add: maxspeed_kmh_of_def lanes_of_def)

lemma maxspeed_decimal:
  "s \<noteq> [] \<Longrightarrow> list_all py_isdecimal_char s \<Longrightarrow>
   maxspeed_kmh_of (Some s) = Inr (foldl (\<lambda>acc c. 10 * acc + digit_value c) 0 s)"
proof -
  assume s: "s \<noteq> []" and d: "list_all py_isdecimal_char s"
  have "py_isdigit_char c" if "py_isdecimal_char c" for c
    using that unfolding py_isdigit_char_def py_isdecimal_char_def Let_def by simp
  with d have "list_all py_isdigit_char s"
    by (simp add: list_all_iff)
  with s d show ?thesis
    by (simp add: maxspeed_kmh_of_def py_isdigit_def py_int_def)
qed

lemma maxspeed_examples:
  "maxspeed_kmh_of (Some ''30'') = Inr 30 \<and> maxspeed_kmh_of (Some ''FR:urban'') = Inr 50 \<and>
   maxspeed_kmh_of (Some '''') = Inr 50 \<and> lanes_of (Some ''3'') = Inr 3 \<and>
   lanes_of (Some ''2;3'') = Inr 2"
  by code_simp

text \<open>
  Claim C8. The claim says that no static-feature function raises and that a speed-limit
  or lane-count tag that does not parse as an integer gives the default. The script
  guards \<open>int(x)\<close> with \<open>str(x).isdigit()\<close>, which also holds for the superscript
  digits, and \<open>int\<close> rejects them: on the tag U+00B2 (superscript two), which is no
  integer literal, the speed limit and the lane count raise ValueError instead of giving
  50 and 2, and so does the computation of the static row of such an edge.
\<close>

theorem static_features_superscript_digit_raises:
  "py_isdigit [CHR 0xB2] \<and>
   py_int [CHR 0xB2] = Inl ValueError \<and>
   maxspeed_kmh_of (Some [CHR 0xB2]) = Inl ValueError \<and>
   lanes_of (Some [CHR 0xB2]) = Inl ValueError \<and>
   edge_row_of (row \<lparr> o_maxspeed := Some [CHR 0xB2] \<rparr>) = Inl ValueError"
  by (simp add: edge_row_of_def maxspeed_kmh_of_def lanes_of_def py_isdigit_def
      py_isdigit_char_def py_int_def py_isdecimal_char_def)

section \<open>Sensors without usable coordinates\<close>

lemma truthy_iff: "truthy v = (\<exists>x. v = Some x \<and> x \<noteq> 0)"
  by (cases v) (simp_all add: truthy_def)

lemma sensors_list_filter:
  "sensors_list sensors_info =
     map (\<lambda>(c, info). \<lparr> s_counter_id = c, s_name = i_name info,
                          s_geometry = (the (i_lon info), the (i_lat info)) \<rparr>)
       (filter (\<lambda>(c, info). truthy (i_lat info) \<and> truthy (i_lon info)) sensors_info)"
  by (induction sensors_info rule: sensors_list.induct) simp_all

lemma match_sensor_keys:
  "match_sensor distance edges_lam acc s = Inr acc' \<Longrightarrow>
   fst ` set acc' \<subseteq> insert (s_counter_id s) (fst ` set acc)"
proof -
  assume "match_sensor distance edges_lam acc s = Inr acc'"
  then have "acc' = acc \<or> (\<exists>v. acc' = AList.update (s_counter_id s) v acc)"
    unfolding match_sensor_def Let_def by (auto split: sum.splits if_splits)
  then show ?thesis
    using AList.dom_update [of "s_counter_id s" _ acc] by auto
qed

lemma sensor_to_edge_loop_keys:
  "sensor_to_edge_loop distance edges_lam sensors acc = Inr s2e \<Longrightarrow>
   fst ` set s2e \<subseteq> s_counter_id ` set sensors \<union> fst ` set acc"
proof (induction sensors arbitrary: acc)
  case Nil
  then show ?case by simp
next
  case (Cons s sensors)
  from Cons.prems obtain acc' where
    m: "match_sensor distance edges_lam acc s = Inr acc'" and
    l: "sensor_to_edge_loop distance edges_lam sensors acc' = Inr s2e"
    by (auto split: sum.splits)
  from Cons.IH [OF l] match_sensor_keys [OF m] show ?case
    by auto
qed

lemma sensor_to_edge_keys:
  "sensor_to_edge distance edges_lam sensors = Inr s2e \<Longrightarrow>
   fst ` set s2e \<subseteq> s_counter_id ` set sensors"
  using sensor_to_edge_loop_keys [of distance edges_lam sensors "[]" s2e]
  by (simp add: sensor_to_edge_def)

text \<open>
  Claim C10. The list of sensors that enters the matching holds exactly the entries
  of the sensor metadata whose latitude and longitude are both truthy, in order; a
  latitude or longitude that is null or equal to 0 is not truthy, so such a sensor is
  left out. Building the list raises nothing (it is a total function), and a counter
  with an association in the result of the matching is one of the metadata entries with
  two truthy coordinates.
\<close>

theorem sensors_list_skips_falsy:
  "sensors_list sensors_info =
     map (\<lambda>(c, info). \<lparr> s_counter_id = c, s_name = i_name info,
                          s_geometry = (the (i_lon info), the (i_lat info)) \<rparr>)
       (filter (\<lambda>(c, info). truthy (i_lat info) \<and> truthy (i_lon info)) sensors_info) \<and>
   \<not> truthy None \<and> \<not> truthy (Some 0) \<and>
   truthy v = (\<exists>x. v = Some x \<and> x \<noteq> 0) \<and>
   (sensor_to_edge distance edges_lam (sensors_lam to_crs (sensors_list sensors_info)) = Inr s2e \<longrightarrow>
      (\<forall>c \<in> fst ` set s2e. \<exists>info. (c, info) \<in> set sensors_info \<and>
          truthy (i_lat info) \<and> truthy (i_lon info)))"
proof -
  have "\<exists>info. (c, info) \<in> set sensors_info \<and> truthy (i_lat info) \<and> truthy (i_lon info)"
    if r: "sensor_to_edge distance edges_lam (sensors_lam to_crs (sensors_list sensors_info)) = Inr s2e"
      and c: "c \<in> fst ` set s2e" for c
  proof -
    from sensor_to_edge_keys [OF r] c
    have "c \<in> s_counter_id ` set (sensors_lam to_crs (sensors_list sensors_info))"
      by blast
    then have "c \<in> s_counter_id ` set (sensors_list sensors_info)"
      by (auto simp: sensors_lam_def)
    then show ?thesis
      unfolding sensors_list_filter by auto
  qed
  then show ?thesis
    using sensors_list_filter [of sensors_info] truthy_iff [of v]
    by (simp add: truthy_def)
qed

section \<open>The 50 metre threshold of the matching\<close>

lemma first_occurrence:
  "x \<in> set xs \<Longrightarrow>
   length (takeWhile (\<lambda>y. y \<noteq> x) xs) < length xs \<and>
   xs ! length (takeWhile (\<lambda>y. y \<noteq> x) xs) = x"
  by (induction xs) auto

lemma before_first_occurrence:
  "j < length (takeWhile (\<lambda>y. y \<noteq> x) xs) \<Longrightarrow> xs ! j \<noteq> x"
proof (induction xs arbitrary: j)
  case Nil
  then show ?case by simp
next
  case (Cons a xs)
  show ?case
  proof (cases j)
    case 0
    with Cons.prems show ?thesis
      by (simp split: if_splits)
  next
    case (Suc k)
    with Cons.prems have "k < length (takeWhile (\<lambda>y. y \<noteq> x) xs)"
      by (simp split: if_splits)
    from Cons.IH [OF this] Suc show ?thesis
      by simp
  qed
qed

lemma idxmin_first_minimum:
  assumes "ds \<noteq> []"
  shows "\<exists>i < length ds. idxmin ds = Inr i \<and> ds ! i = Min (set ds) \<and>
           (\<forall>j < i. ds ! j \<noteq> Min (set ds))"
proof -
  let ?m = "Min (set ds)"
  let ?i = "length (takeWhile (\<lambda>d. d \<noteq> ?m) ds)"
  from assms have "?m \<in> set ds"
    by (intro Min_in) simp_all
  from first_occurrence [OF this] have lt: "?i < length ds" and at: "ds ! ?i = ?m"
    by simp_all
  have before: "\<forall>j < ?i. ds ! j \<noteq> ?m"
    using before_first_occurrence [of _ ?m ds] by blast
  from assms have "idxmin ds = Inr ?i"
    by (simp add: idxmin_def)
  with lt at before show ?thesis
    by (intro exI [of _ ?i]) simp
qed

lemma match_sensor_step:
  assumes "edges_lam \<noteq> []"
  shows "\<exists>i < length edges_lam.
     (\<forall>e \<in> set edges_lam.
        distance (o_coords (edges_lam ! i)) (s_geometry s) \<le> distance (o_coords e) (s_geometry s)) \<and>
     (\<forall>j < i.
        distance (o_coords (edges_lam ! i)) (s_geometry s) < distance (o_coords (edges_lam ! j)) (s_geometry s)) \<and>
     match_sensor distance edges_lam acc s =
       Inr (if distance (o_coords (edges_lam ! i)) (s_geometry s) \<le> 50
            then AList.update (s_counter_id s)
                   \<lparr> a_edge_id = o_osm_id (edges_lam ! i),
                     a_distance_m = py_round1 (distance (o_coords (edges_lam ! i)) (s_geometry s)),
                     a_sensor_name = s_name s \<rparr> acc
            else acc)"
proof -
  let ?d = "\<lambda>e. distance (o_coords e) (s_geometry s)"
  let ?ds = "map ?d edges_lam"
  from assms have ne: "?ds \<noteq> []"
    by simp
  from idxmin_first_minimum [OF ne] obtain i where
    i: "i < length edges_lam" and ix: "idxmin ?ds = Inr i" and
    mn: "?ds ! i = Min (set ?ds)" and fst: "\<forall>j < i. ?ds ! j \<noteq> Min (set ?ds)"
    by auto
  from i mn have di: "?d (edges_lam ! i) = Min (set ?ds)"
    by simp
  have le: "?d (edges_lam ! i) \<le> ?d e" if "e \<in> set edges_lam" for e
    using that di by simp
  have less: "?d (edges_lam ! i) < ?d (edges_lam ! j)" if "j < i" for j
  proof -
    from that i have "j < length edges_lam"
      by simp
    then have "?d (edges_lam ! i) \<le> ?d (edges_lam ! j)"
      using le by simp
    moreover from fst that have "?ds ! j \<noteq> Min (set ?ds)"
      by blast
    with \<open>j < length edges_lam\<close> di have "?d (edges_lam ! j) \<noteq> ?d (edges_lam ! i)"
      by simp
    ultimately show ?thesis
      by simp
  qed
  from i ix have "match_sensor distance edges_lam acc s =
       Inr (if ?d (edges_lam ! i) \<le> 50
            then AList.update (s_counter_id s)
                   \<lparr> a_edge_id = o_osm_id (edges_lam ! i),
                     a_distance_m = py_round1 (?d (edges_lam ! i)),
                     a_sensor_name = s_name s \<rparr> acc
            else acc)"
    by (simp add: match_sensor_def MAX_DISTANCE_def)
  with i le less show ?thesis
    by (intro exI [of _ i]) simp
qed

lemma sensor_to_edge_loop_total:
  assumes "edges_lam \<noteq> []"
  shows "\<exists>s2e. sensor_to_edge_loop distance edges_lam sensors acc = Inr s2e"
proof (induction sensors arbitrary: acc)
  case Nil
  show ?case by simp
next
  case (Cons s sensors)
  from match_sensor_step [OF assms, of distance s acc] obtain acc' where
    "match_sensor distance edges_lam acc s = Inr acc'"
    by blast
  with Cons.IH [of acc'] show ?case
    by simp
qed

lemma sensor_to_edge_loop_other:
  "sensor_to_edge_loop distance edges_lam sensors acc = Inr s2e \<Longrightarrow>
   c \<notin> s_counter_id ` set sensors \<Longrightarrow> map_of s2e c = map_of acc c"
proof (induction sensors arbitrary: acc)
  case Nil
  then show ?case by simp
next
  case (Cons s sensors)
  from Cons.prems(1) obtain acc' where
    m: "match_sensor distance edges_lam acc s = Inr acc'" and
    l: "sensor_to_edge_loop distance edges_lam sensors acc' = Inr s2e"
    by (auto split: sum.splits)
  from m have "acc' = acc \<or> (\<exists>v. acc' = AList.update (s_counter_id s) v acc)"
    unfolding match_sensor_def Let_def by (auto split: sum.splits if_splits)
  with Cons.prems(2) have "map_of acc' c = map_of acc c"
    by (auto simp: update_conv')
  with Cons.IH [OF l] Cons.prems(2) show ?case
    by simp
qed

text \<open>
  Claim C3. With at least one edge, and sensors with pairwise different identifiers
  (they are the keys of a dictionary), the matching raises nothing, and for every
  sensor there is a nearest edge (the first one, in the order of the frame, at the
  minimum distance) such that the sensor is associated, to that edge, if and only if
  this minimum distance is at most 50: a distance of exactly 50 is accepted, a larger
  one leaves the sensor without association. Only the given sensors get an association.
\<close>

theorem sensor_to_edge_threshold:
  assumes "edges_lam \<noteq> []" and "distinct (map s_counter_id sensors)"
  shows "\<exists>s2e. sensor_to_edge distance edges_lam sensors = Inr s2e \<and>
     fst ` set s2e \<subseteq> s_counter_id ` set sensors \<and>
     (\<forall>s \<in> set sensors. \<exists>i < length edges_lam.
        (\<forall>e \<in> set edges_lam.
           distance (o_coords (edges_lam ! i)) (s_geometry s) \<le> distance (o_coords e) (s_geometry s)) \<and>
        (\<forall>j < i.
           distance (o_coords (edges_lam ! i)) (s_geometry s)
             < distance (o_coords (edges_lam ! j)) (s_geometry s)) \<and>
        map_of s2e (s_counter_id s) =
          (if distance (o_coords (edges_lam ! i)) (s_geometry s) \<le> 50
           then Some \<lparr> a_edge_id = o_osm_id (edges_lam ! i),
                       a_distance_m = py_round1 (distance (o_coords (edges_lam ! i)) (s_geometry s)),
                       a_sensor_name = s_name s \<rparr>
           else None))"
proof -
  have loop: "\<exists>i < length edges_lam.
        (\<forall>e \<in> set edges_lam.
           distance (o_coords (edges_lam ! i)) (s_geometry s) \<le> distance (o_coords e) (s_geometry s)) \<and>
        (\<forall>j < i.
           distance (o_coords (edges_lam ! i)) (s_geometry s)
             < distance (o_coords (edges_lam ! j)) (s_geometry s)) \<and>
        map_of s2e (s_counter_id s) =
          (if distance (o_coords (edges_lam ! i)) (s_geometry s) \<le> 50
           then Some \<lparr> a_edge_id = o_osm_id (edges_lam ! i),
                       a_distance_m = py_round1 (distance (o_coords (edges_lam ! i)) (s_geometry s)),
                       a_sensor_name = s_name s \<rparr>
           else map_of acc (s_counter_id s))"
    if "sensor_to_edge_loop distance edges_lam ss acc = Inr s2e" and "distinct (map s_counter_id ss)"
      and "s \<in> set ss" for ss acc s2e s
    using that
  proof (induction ss arbitrary: acc)
    case Nil
    then show ?case by simp
  next
    case (Cons x ss)
    from Cons.prems(1) obtain acc' where
      m: "match_sensor distance edges_lam acc x = Inr acc'" and
      l: "sensor_to_edge_loop distance edges_lam ss acc' = Inr s2e"
      by (auto split: sum.splits)
    show ?case
    proof (cases "s \<in> set ss")
      case True
      then have "s_counter_id s \<in> s_counter_id ` set ss"
        by (rule imageI)
      with Cons.prems(2) have ne: "s_counter_id s \<noteq> s_counter_id x"
        by auto
      from m have "acc' = acc \<or> (\<exists>v. acc' = AList.update (s_counter_id x) v acc)"
        unfolding match_sensor_def Let_def by (auto split: sum.splits if_splits)
      with ne have eq: "map_of acc' (s_counter_id s) = map_of acc (s_counter_id s)"
        by (auto simp: update_conv')
      from Cons.prems(2) have d: "distinct (map s_counter_id ss)"
        by simp
      from Cons.IH [OF l d True] show ?thesis
        unfolding eq .
    next
      case False
      with Cons.prems(3) have sx: "s = x"
        by simp
      from Cons.prems(2) have "s_counter_id x \<notin> s_counter_id ` set ss"
        by simp
      from sensor_to_edge_loop_other [OF l this]
      have same: "map_of s2e (s_counter_id x) = map_of acc' (s_counter_id x)" .
      from match_sensor_step [OF assms(1), of distance x acc] obtain i where
        i: "i < length edges_lam" and
        le: "\<forall>e \<in> set edges_lam.
           distance (o_coords (edges_lam ! i)) (s_geometry x) \<le> distance (o_coords e) (s_geometry x)" and
        less: "\<forall>j < i.
           distance (o_coords (edges_lam ! i)) (s_geometry x)
             < distance (o_coords (edges_lam ! j)) (s_geometry x)" and
        st: "match_sensor distance edges_lam acc x =
           Inr (if distance (o_coords (edges_lam ! i)) (s_geometry x) \<le> 50
                then AList.update (s_counter_id x)
                   \<lparr> a_edge_id = o_osm_id (edges_lam ! i),
                     a_distance_m = py_round1 (distance (o_coords (edges_lam ! i)) (s_geometry x)),
                     a_sensor_name = s_name x \<rparr> acc
                else acc)"
        by blast
      from st m have "map_of acc' (s_counter_id x) =
          (if distance (o_coords (edges_lam ! i)) (s_geometry x) \<le> 50
           then Some \<lparr> a_edge_id = o_osm_id (edges_lam ! i),
                       a_distance_m = py_round1 (distance (o_coords (edges_lam ! i)) (s_geometry x)),
                       a_sensor_name = s_name x \<rparr>
           else map_of acc (s_counter_id x))"
        by (auto simp: update_conv')
      with same have "map_of s2e (s_counter_id x) =
          (if distance (o_coords (edges_lam ! i)) (s_geometry x) \<le> 50
           then Some \<lparr> a_edge_id = o_osm_id (edges_lam ! i),
                       a_distance_m = py_round1 (distance (o_coords (edges_lam ! i)) (s_geometry x)),
                       a_sensor_name = s_name x \<rparr>
           else map_of acc (s_counter_id x))"
        by simp
      with i le less show ?thesis
        unfolding sx by (intro exI [of _ i]) simp
    qed
  qed
  from sensor_to_edge_loop_total [OF assms(1), of distance sensors "[]"] obtain s2e where
    r: "sensor_to_edge distance edges_lam sensors = Inr s2e"
    by (auto simp: sensor_to_edge_def)
  then have l: "sensor_to_edge_loop distance edges_lam sensors [] = Inr s2e"
    by (simp add: sensor_to_edge_def)
  have keys: "fst ` set s2e \<subseteq> s_counter_id ` set sensors"
    using sensor_to_edge_loop_keys [OF l] by simp
  have every: "\<forall>s \<in> set sensors. \<exists>i < length edges_lam.
        (\<forall>e \<in> set edges_lam.
           distance (o_coords (edges_lam ! i)) (s_geometry s) \<le> distance (o_coords e) (s_geometry s)) \<and>
        (\<forall>j < i.
           distance (o_coords (edges_lam ! i)) (s_geometry s)
             < distance (o_coords (edges_lam ! j)) (s_geometry s)) \<and>
        map_of s2e (s_counter_id s) =
          (if distance (o_coords (edges_lam ! i)) (s_geometry s) \<le> 50
           then Some \<lparr> a_edge_id = o_osm_id (edges_lam ! i),
                       a_distance_m = py_round1 (distance (o_coords (edges_lam ! i)) (s_geometry s)),
                       a_sensor_name = s_name s \<rparr>
           else None)"
  proof
    fix s
    assume "s \<in> set sensors"
    from loop [OF l assms(2) this] show "\<exists>i < length edges_lam.
        (\<forall>e \<in> set edges_lam.
           distance (o_coords (edges_lam ! i)) (s_geometry s) \<le> distance (o_coords e) (s_geometry s)) \<and>
        (\<forall>j < i.
           distance (o_coords (edges_lam ! i)) (s_geometry s)
             < distance (o_coords (edges_lam ! j)) (s_geometry s)) \<and>
        map_of s2e (s_counter_id s) =
          (if distance (o_coords (edges_lam ! i)) (s_geometry s) \<le> 50
           then Some \<lparr> a_edge_id = o_osm_id (edges_lam ! i),
                       a_distance_m = py_round1 (distance (o_coords (edges_lam ! i)) (s_geometry s)),
                       a_sensor_name = s_name s \<rparr>
           else None)"
      unfolding map_of.simps .
  qed
  show ?thesis
  proof (intro exI conjI)
    show "sensor_to_edge distance edges_lam sensors = Inr s2e"
      by (fact r)
    show "fst ` set s2e \<subseteq> s_counter_id ` set sensors"
      by (fact keys)
  qed (fact every)
qed

section \<open>The count lookup\<close>

lemma bike_lookup_loop_sum:
  "bike_lookup_loop rows lookup key =
     (let rs = filter (\<lambda>r. (b_edge_id r, b_timestamp r) = key) rows
      in if rs = [] then lookup key
         else Some ((case lookup key of None \<Rightarrow> 0 | Some c \<Rightarrow> c) + sum_list (map b_count rs)))"
proof (induction rows arbitrary: lookup)
  case Nil
  show ?case by simp
next
  case (Cons row rows)
  show ?case
    unfolding bike_lookup_loop.simps Let_def Cons.IH
    by (auto split: option.splits)
qed

lemma bike_lookup_sum:
  "bike_lookup df (e, t) =
     (let rs = filter (\<lambda>r. b_edge_id r = e \<and> b_timestamp r = t) df
      in if rs = [] then None else Some (sum_list (map b_count rs)))"
  unfolding bike_lookup_def bike_lookup_loop_sum [of df Map.empty "(e, t)"]
  by (simp add: Let_def)

lemma bike_df_counts:
  "map b_count (filter (\<lambda>r. b_edge_id r = e \<and> b_timestamp r = t) (bike_df s2e records)) =
   map b_count
     (filter (\<lambda>r. map_option a_edge_id (map_of s2e (b_counter_id r)) = Some e \<and> b_timestamp r = t)
        records)"
  by (induction records) (auto simp: bike_df_def List.map_filter_simps split: option.splits)

lemma pipeline_lookup_sum:
  "bike_lookup (bike_df s2e records) (e, t) =
     (let cs = map b_count
                 (filter (\<lambda>r. map_option a_edge_id (map_of s2e (b_counter_id r)) = Some e \<and>
                               b_timestamp r = t) records)
      in if cs = [] then None else Some (sum_list cs))"
proof -
  have "bike_lookup (bike_df s2e records) (e, t) =
     (let cs = map b_count (filter (\<lambda>r. b_edge_id r = e \<and> b_timestamp r = t) (bike_df s2e records))
      in if cs = [] then None else Some (sum_list cs))"
    by (simp add: bike_lookup_sum Let_def)
  then show ?thesis
    by (simp only: bike_df_counts)
qed

section \<open>The weather lookup\<close>

lemma bisect_left_done: "\<not> lo < hi \<Longrightarrow> bisect_left a v lo hi = lo"
  by (subst bisect_left.simps) simp

lemma bisect_left_right:
  "lo < hi \<Longrightarrow> a ! (lo + (hi - lo) div 2) < v \<Longrightarrow>
   bisect_left a v lo hi = bisect_left a v (lo + (hi - lo) div 2 + 1) hi"
  by (subst bisect_left.simps) (simp add: Let_def)

lemma bisect_left_left:
  "lo < hi \<Longrightarrow> \<not> a ! (lo + (hi - lo) div 2) < v \<Longrightarrow>
   bisect_left a v lo hi = bisect_left a v lo (lo + (hi - lo) div 2)"
  by (subst bisect_left.simps) (simp add: Let_def)

lemma bisect_left_bounds:
  "lo \<le> hi \<Longrightarrow> lo \<le> bisect_left a v lo hi \<and> bisect_left a v lo hi \<le> hi"
proof (induction a v lo hi rule: bisect_left.induct)
  case (1 a v lo hi)
  show ?case
  proof (cases "lo < hi")
    case False
    with "1.prems" show ?thesis
      by (simp add: bisect_left_done)
  next
    case True
    let ?mid = "lo + (hi - lo) div 2"
    from True have mid: "lo \<le> ?mid" "?mid < hi"
      by simp_all
    show ?thesis
    proof (cases "a ! ?mid < v")
      case less: True
      from mid have "?mid + 1 \<le> hi"
        by simp
      from "1.IH"(1) [OF True refl less this] mid show ?thesis
        unfolding bisect_left_right [OF True less] by simp
    next
      case ge: False
      from "1.IH"(2) [OF True refl ge mid(1)] mid show ?thesis
        unfolding bisect_left_left [OF True ge] by simp
    qed
  qed
qed

lemma bisect_left_sorted:
  "sorted a \<Longrightarrow> lo \<le> hi \<Longrightarrow> hi \<le> length a \<Longrightarrow> (\<forall>j < lo. a ! j < v) \<Longrightarrow>
    (\<forall>j. hi \<le> j \<and> j < length a \<longrightarrow> v \<le> a ! j) \<Longrightarrow>
    (\<forall>j < bisect_left a v lo hi. a ! j < v) \<and>
    (\<forall>j. bisect_left a v lo hi \<le> j \<and> j < length a \<longrightarrow> v \<le> a ! j)"
proof (induction a v lo hi rule: bisect_left.induct)
  case (1 a v lo hi)
  note srt = "1.prems"(1)
  show ?case
  proof (cases "lo < hi")
    case False
    with "1.prems"(2) have "lo = hi"
      by simp
    with "1.prems"(4,5) show ?thesis
      unfolding bisect_left_done [OF False] by simp
  next
    case True
    let ?mid = "lo + (hi - lo) div 2"
    from True "1.prems"(3) have mid: "lo \<le> ?mid" "?mid < hi" "?mid < length a"
      by simp_all
    show ?thesis
    proof (cases "a ! ?mid < v")
      case less: True
      have below: "\<forall>j < ?mid + 1. a ! j < v"
      proof (intro allI impI)
        fix j
        assume "j < ?mid + 1"
        then have "j \<le> ?mid"
          by simp
        with srt mid(3) have "a ! j \<le> a ! ?mid"
          by (simp add: sorted_nth_mono)
        with less show "a ! j < v"
          by simp
      qed
      from mid have le: "?mid + 1 \<le> hi"
        by simp
      from "1.IH"(1) [OF True refl less srt le "1.prems"(3) below "1.prems"(5)]
      show ?thesis
        unfolding bisect_left_right [OF True less] .
    next
      case ge: False
      have above: "\<forall>j. ?mid \<le> j \<and> j < length a \<longrightarrow> v \<le> a ! j"
      proof (intro allI impI)
        fix j
        assume "?mid \<le> j \<and> j < length a"
        with srt have "a ! ?mid \<le> a ! j"
          by (simp add: sorted_nth_mono)
        with ge show "v \<le> a ! j"
          by simp
      qed
      from mid have le: "?mid \<le> length a"
        by simp
      from "1.IH"(2) [OF True refl ge srt mid(1) le "1.prems"(4) above]
      show ?thesis
        unfolding bisect_left_left [OF True ge] .
    qed
  qed
qed

lemma searchsorted_le_length: "searchsorted a v \<le> length a"
  using bisect_left_bounds [of 0 "length a" a v] by (simp add: searchsorted_def)

lemma searchsorted_sorted:
  assumes "sorted a"
  shows "(\<forall>j < searchsorted a v. a ! j < v) \<and>
         (\<forall>j. searchsorted a v \<le> j \<and> j < length a \<longrightarrow> v \<le> a ! j)"
  using bisect_left_sorted [OF assms, of 0 "length a" v] by (simp add: searchsorted_def)

lemma iloc_nth: "i < length df \<Longrightarrow> iloc df (int i) = Inr (df ! i)"
  by (simp add: iloc_def)

lemma iloc_last: "df \<noteq> [] \<Longrightarrow> iloc df (- 1) = Inr (df ! (length df - 1))"
proof -
  assume "df \<noteq> []"
  then have "0 < length df"
    by simp
  then have "nat (int (length df) + - 1) = length df - 1"
    by simp
  with \<open>df \<noteq> []\<close> show ?thesis
    by (simp add: iloc_def Suc_le_eq)
qed

lemma iloc_before:
  "0 < k \<Longrightarrow> k \<le> length df \<Longrightarrow> iloc df (int k - 1) = Inr (df ! (k - 1))"
proof -
  assume k: "0 < k" "k \<le> length df"
  then have "int k - 1 = int (k - 1)"
    by simp
  moreover from k have "k - 1 < length df"
    by simp
  ultimately show ?thesis
    by (simp only: iloc_nth)
qed

lemma weather_row_first_match:
  "filter (\<lambda>w. w_timestamp w = ts) weather_df = w # ws \<Longrightarrow> weather_row weather_df ts = Inr w"
  by (simp add: weather_row_def iloc_def)

lemma weather_row_search:
  "filter (\<lambda>w. w_timestamp w = ts) weather_df = [] \<Longrightarrow>
   weather_row weather_df ts =
     iloc weather_df (int (searchsorted (map w_timestamp weather_df) ts) - 1)"
  by (simp add: weather_row_def)

lemma weather_row_total:
  assumes "weather_df \<noteq> []"
  shows "\<exists>w. weather_row weather_df ts = Inr w \<and> w \<in> set weather_df"
proof (cases "filter (\<lambda>w. w_timestamp w = ts) weather_df")
  case Nil
  let ?k = "searchsorted (map w_timestamp weather_df) ts"
  from searchsorted_le_length [of "map w_timestamp weather_df" ts]
  have k: "?k \<le> length weather_df"
    by simp
  show ?thesis
  proof (cases "?k = 0")
    case True
    from iloc_last [OF assms] have "weather_row weather_df ts = Inr (weather_df ! (length weather_df - 1))"
      unfolding weather_row_search [OF Nil] True by simp
    moreover from assms have "weather_df ! (length weather_df - 1) \<in> set weather_df"
      by simp
    ultimately show ?thesis
      by blast
  next
    case False
    then have pos: "0 < ?k"
      by simp
    from iloc_before [OF pos k] have "weather_row weather_df ts = Inr (weather_df ! (?k - 1))"
      unfolding weather_row_search [OF Nil] .
    moreover from pos k have "weather_df ! (?k - 1) \<in> set weather_df"
      by simp
    ultimately show ?thesis
      by blast
  qed
next
  case (Cons w ws)
  from weather_row_first_match [OF Cons] have "weather_row weather_df ts = Inr w" .
  moreover from Cons have "w \<in> set (filter (\<lambda>w. w_timestamp w = ts) weather_df)"
    by simp
  then have "w \<in> set weather_df"
    by simp
  ultimately show ?thesis
    by blast
qed

lemma weather_row_nearest_prior:
  assumes srt: "sorted (map w_timestamp weather_df)"
    and prior: "u \<in> set weather_df" "w_timestamp u \<le> ts"
  shows "\<exists>w. weather_row weather_df ts = Inr w \<and> w \<in> set weather_df \<and> w_timestamp w \<le> ts \<and>
           (\<forall>w' \<in> set weather_df. w_timestamp w' \<le> ts \<longrightarrow> w_timestamp w' \<le> w_timestamp w)"
proof (cases "filter (\<lambda>w. w_timestamp w = ts) weather_df")
  case (Cons w ws)
  from weather_row_first_match [OF Cons] have r: "weather_row weather_df ts = Inr w" .
  from Cons have "w \<in> set (filter (\<lambda>w. w_timestamp w = ts) weather_df)"
    by simp
  then have "w \<in> set weather_df" "w_timestamp w = ts"
    by simp_all
  with r show ?thesis
    by auto
next
  case Nil
  let ?a = "map w_timestamp weather_df"
  let ?k = "searchsorted ?a ts"
  from Nil have no_exact: "\<forall>w \<in> set weather_df. w_timestamp w \<noteq> ts"
    by (simp add: filter_empty_conv)
  from searchsorted_sorted [OF srt, of ts]
  have below: "\<forall>j < ?k. ?a ! j < ts"
    and above: "\<forall>j. ?k \<le> j \<and> j < length ?a \<longrightarrow> ts \<le> ?a ! j"
    by simp_all
  have k: "?k \<le> length weather_df"
    using searchsorted_le_length [of ?a ts] by simp
  have idx: "j < ?k" if "j < length weather_df" "w_timestamp (weather_df ! j) \<le> ts" for j
  proof (rule ccontr)
    assume "\<not> j < ?k"
    with that(1) above have "ts \<le> ?a ! j"
      by simp
    with that have "w_timestamp (weather_df ! j) = ts"
      by simp
    with no_exact that(1) show False
      by simp
  qed
  from prior(1) obtain ju where ju: "ju < length weather_df" "weather_df ! ju = u"
    by (auto simp: in_set_conv_nth)
  with prior(2) idx have "ju < ?k"
    by simp
  then have pos: "0 < ?k"
    by simp
  with k have lt: "?k - 1 < length weather_df"
    by simp
  from iloc_before [OF pos k] have r: "weather_row weather_df ts = Inr (weather_df ! (?k - 1))"
    unfolding weather_row_search [OF Nil] .
  from pos below lt have before: "w_timestamp (weather_df ! (?k - 1)) \<le> ts"
    by (simp add: less_imp_le)
  have nearest: "w_timestamp w' \<le> w_timestamp (weather_df ! (?k - 1))"
    if "w' \<in> set weather_df" "w_timestamp w' \<le> ts" for w'
  proof -
    from that(1) obtain j where j: "j < length weather_df" "weather_df ! j = w'"
      by (auto simp: in_set_conv_nth)
    with that(2) idx have "j < ?k"
      by simp
    then have jk: "j \<le> ?k - 1"
      by simp
    from lt have "?k - 1 < length ?a"
      by simp
    from sorted_nth_mono [OF srt jk this] have "?a ! j \<le> ?a ! (?k - 1)" .
    with j lt show ?thesis
      by simp
  qed
  from r lt before nearest show ?thesis
    by simp
qed

section \<open>The rows of the grid\<close>

lemma map_err_make_row:
  assumes "set ews \<subseteq> dom edict"
  shows "\<exists>rows. map_err (make_row ts w edict lookup) ews = Inr rows \<and>
           map (\<lambda>r. (edge_id r, timestamp r)) rows = map (\<lambda>e. (e, ts)) ews"
  using assms
proof (induction ews)
  case Nil
  show ?case by simp
next
  case (Cons e ews)
  from Cons.prems obtain er where er: "edict e = Some er"
    by auto
  from Cons obtain rows where
    rows: "map_err (make_row ts w edict lookup) ews = Inr rows"
      "map (\<lambda>r. (edge_id r, timestamp r)) rows = map (\<lambda>e. (e, ts)) ews"
    by auto
  from er obtain r where r: "make_row ts w edict lookup e = Inr r"
    by (simp add: make_row_def)
  then have "edge_id r = e" "timestamp r = ts"
    by (auto simp: make_row_def split: option.splits)
  with r rows show ?case
    by simp
qed

lemma map_err_make_row_elem:
  "map_err (make_row ts w edict lookup) ews = Inr rows \<Longrightarrow> row \<in> set rows \<Longrightarrow>
   \<exists>e \<in> set ews. make_row ts w edict lookup e = Inr row"
proof (induction ews arbitrary: rows)
  case Nil
  then show ?case by simp
next
  case (Cons e ews)
  from Cons.prems(1) obtain r rs where
    r: "make_row ts w edict lookup e = Inr r" and
    rs: "map_err (make_row ts w edict lookup) ews = Inr rs" and
    eq: "rows = r # rs"
    by (auto split: sum.splits)
  from Cons.prems(2) eq have "row = r \<or> row \<in> set rs"
    by simp
  then show ?case
  proof
    assume "row = r"
    with r show ?thesis by simp
  next
    assume "row \<in> set rs"
    from Cons.IH [OF rs this] show ?thesis by simp
  qed
qed

lemma make_row_fields:
  "make_row ts w edict lookup e = Inr row \<Longrightarrow>
   edge_id row = e \<and> timestamp row = ts \<and> bike_count row = lookup (e, ts) \<and>
   temperature_c row = w_temperature_c w \<and> precipitation_mm row = w_precipitation_mm w \<and>
   wind_speed_kmh row = w_wind_speed_kmh w \<and> is_raining row = w_is_raining w"
  by (auto simp: make_row_def split: option.splits)

lemma dataset_rows_elem:
  "dataset_rows weather_df edict lookup ews tss = Inr rows \<Longrightarrow> row \<in> set rows \<Longrightarrow>
   \<exists>w. weather_row weather_df (timestamp row) = Inr w \<and> timestamp row \<in> set tss \<and>
       edge_id row \<in> set ews \<and>
       make_row (timestamp row) w edict lookup (edge_id row) = Inr row"
proof (induction tss arbitrary: rows)
  case Nil
  then show ?case by simp
next
  case (Cons ts tss)
  from Cons.prems(1) obtain w rs more_rows where
    w: "weather_row weather_df ts = Inr w" and
    rs: "map_err (make_row ts w edict lookup) ews = Inr rs" and
    more_rows: "dataset_rows weather_df edict lookup ews tss = Inr more_rows" and
    eq: "rows = rs @ more_rows"
    by (auto split: sum.splits)
  from Cons.prems(2) eq have "row \<in> set rs \<or> row \<in> set more_rows"
    by simp
  then show ?case
  proof
    assume "row \<in> set rs"
    from map_err_make_row_elem [OF rs this] obtain e where
      e: "e \<in> set ews" "make_row ts w edict lookup e = Inr row"
      by blast
    from make_row_fields [OF e(2)] have "edge_id row = e" "timestamp row = ts"
      by simp_all
    with e w show ?thesis
      by simp
  next
    assume "row \<in> set more_rows"
    from Cons.IH [OF more_rows this] show ?thesis
      by auto
  qed
qed

lemma dataset_rows_keys:
  assumes "weather_df \<noteq> []" and "set ews \<subseteq> dom edict"
  shows "\<exists>rows. dataset_rows weather_df edict lookup ews tss = Inr rows \<and>
           map (\<lambda>r. (edge_id r, timestamp r)) rows = concat (map (\<lambda>ts. map (\<lambda>e. (e, ts)) ews) tss)"
proof (induction tss)
  case Nil
  show ?case by simp
next
  case (Cons ts tss)
  from weather_row_total [OF assms(1), of ts] obtain w where
    w: "weather_row weather_df ts = Inr w"
    by blast
  from map_err_make_row [OF assms(2), of ts w lookup] obtain rs where
    rs: "map_err (make_row ts w edict lookup) ews = Inr rs"
      "map (\<lambda>r. (edge_id r, timestamp r)) rs = map (\<lambda>e. (e, ts)) ews"
    by blast
  from Cons obtain more_rows where
    more_rows: "dataset_rows weather_df edict lookup ews tss = Inr more_rows"
      "map (\<lambda>r. (edge_id r, timestamp r)) more_rows = concat (map (\<lambda>ts. map (\<lambda>e. (e, ts)) ews) tss)"
    by blast
  from w rs more_rows show ?case
    by simp
qed

lemma cross_product_keys:
  "length (concat (map (\<lambda>ts. map (\<lambda>e. (e, ts)) ews) tss)) = length ews * length tss"
  "set (concat (map (\<lambda>ts. map (\<lambda>e. (e, ts)) ews) tss)) = set ews \<times> set tss"
  "distinct ews \<Longrightarrow> distinct tss \<Longrightarrow> distinct (concat (map (\<lambda>ts. map (\<lambda>e. (e, ts)) ews) tss))"
proof -
  show "length (concat (map (\<lambda>ts. map (\<lambda>e. (e, ts)) ews) tss)) = length ews * length tss"
    by (induction tss) simp_all
  show "set (concat (map (\<lambda>ts. map (\<lambda>e. (e, ts)) ews) tss)) = set ews \<times> set tss"
    by auto
  show "distinct (concat (map (\<lambda>ts. map (\<lambda>e. (e, ts)) ews) tss))"
    if "distinct ews" "distinct tss"
    using that
  proof (induction tss)
    case Nil
    show ?case by simp
  next
    case (Cons ts tss)
    from Cons.prems have "distinct (map (\<lambda>e. (e, ts)) ews)"
      by (simp add: distinct_map inj_on_def)
    with Cons show ?case
      by auto
  qed
qed

section \<open>The edges with sensors are edges of the network\<close>

lemma set_update_subset: "set (AList.update k v al) \<subseteq> insert (k, v) (set al)"
  by (induction al) auto

lemma match_sensor_edges:
  assumes "match_sensor distance edges_lam acc s = Inr acc'"
    and "\<forall>(c, a) \<in> set acc. a_edge_id a \<in> o_osm_id ` set edges_lam"
  shows "\<forall>(c, a) \<in> set acc'. a_edge_id a \<in> o_osm_id ` set edges_lam"
proof (cases "edges_lam = []")
  case True
  with assms(1) show ?thesis
    by (simp add: match_sensor_def idxmin_def)
next
  case False
  from match_sensor_step [OF False, of distance s acc] obtain i where
    i: "i < length edges_lam" and
    st: "match_sensor distance edges_lam acc s =
       Inr (if distance (o_coords (edges_lam ! i)) (s_geometry s) \<le> 50
            then AList.update (s_counter_id s)
                   \<lparr> a_edge_id = o_osm_id (edges_lam ! i),
                     a_distance_m = py_round1 (distance (o_coords (edges_lam ! i)) (s_geometry s)),
                     a_sensor_name = s_name s \<rparr> acc
            else acc)"
    by blast
  let ?a = "\<lparr> a_edge_id = o_osm_id (edges_lam ! i),
                a_distance_m = py_round1 (distance (o_coords (edges_lam ! i)) (s_geometry s)),
                a_sensor_name = s_name s \<rparr>"
  show ?thesis
  proof (cases "distance (o_coords (edges_lam ! i)) (s_geometry s) \<le> 50")
    case False
    with st assms(1) have "acc' = acc"
      by simp
    with assms(2) show ?thesis
      by simp
  next
    case True
    with st assms(1) have "acc' = AList.update (s_counter_id s) ?a acc"
      by simp
    with set_update_subset [of "s_counter_id s" ?a acc]
    have sub: "set acc' \<subseteq> insert (s_counter_id s, ?a) (set acc)"
      by simp
    from i have "a_edge_id ?a \<in> o_osm_id ` set edges_lam"
      by simp
    with sub assms(2) show ?thesis
      by auto
  qed
qed

lemma sensor_to_edge_loop_edges:
  "sensor_to_edge_loop distance edges_lam sensors acc = Inr s2e \<Longrightarrow>
   \<forall>(c, a) \<in> set acc. a_edge_id a \<in> o_osm_id ` set edges_lam \<Longrightarrow>
   \<forall>(c, a) \<in> set s2e. a_edge_id a \<in> o_osm_id ` set edges_lam"
proof (induction sensors arbitrary: acc)
  case Nil
  then show ?case by simp
next
  case (Cons s sensors)
  from Cons.prems(1) obtain acc' where
    m: "match_sensor distance edges_lam acc s = Inr acc'" and
    l: "sensor_to_edge_loop distance edges_lam sensors acc' = Inr s2e"
    by (auto split: sum.splits)
  from Cons.IH [OF l match_sensor_edges [OF m Cons.prems(2)]] show ?case .
qed

lemma edges_dict_loop_keys:
  "edges_dict_loop edges d0 = Inr d \<Longrightarrow> fst ` set d = o_osm_id ` set edges \<union> fst ` set d0"
proof (induction edges arbitrary: d0)
  case Nil
  then show ?case by simp
next
  case (Cons row edges)
  from Cons.prems obtain r where
    "edges_dict_loop edges (AList.update (o_osm_id row) r d0) = Inr d"
    by (auto split: sum.splits)
  from Cons.IH [OF this] show ?case
    by (auto simp: AList.dom_update)
qed

lemma edges_with_sensors_in_dict:
  assumes "sensor_to_edge distance edges_lam sensors = Inr s2e" and "edges_dict edges_lam = Inr d"
  shows "set (edges_with_sensors s2e) \<subseteq> dom (map_of d)"
proof -
  from assms(1) have "\<forall>(c, a) \<in> set s2e. a_edge_id a \<in> o_osm_id ` set edges_lam"
    using sensor_to_edge_loop_edges [of distance edges_lam sensors "[]" s2e]
    by (simp add: sensor_to_edge_def)
  moreover from assms(2) have "fst ` set d = o_osm_id ` set edges_lam"
    using edges_dict_loop_keys [of edges_lam "[]" d] by (simp add: edges_dict_def)
  ultimately show ?thesis
    by (auto simp: edges_with_sensors_def dom_map_of_conv_image_fst)
qed

section \<open>The small run, stage by stage\<close>

lemma ex_orientation: "calc_orientation [(0, y), (100, y)] = Some ''E''"
  by (simp add: calc_orientation_def bearing_def arctan2_def degrees_def categorize_angle_def)

lemma ex_edge_row_of: "edge_row_of (ex_edge i y) = Inr ex_edge_row"
proof -
  have "maxspeed_kmh_of (Some ''30'') = Inr 30" "lanes_of None = Inr 2"
    "categorize_surface (Some ''Asphalt'') = ''good''" "categorize_road ''residential'' = ''local''"
    by code_simp+
  then show ?thesis
    by (simp add: edge_row_of_def ex_edge_def ex_edge_row_def ex_orientation fillna_def)
qed

lemma ex_edges_dict: "edges_dict ex_edges = Inr ex_edict"
  by (simp add: edges_dict_def ex_edges_def ex_edge_row_of ex_edict_def)
    (simp add: ex_edge_def)

lemma ex_sensor_to_edge: "sensor_to_edge ex_distance ex_edges ex_sensors = Inr ex_s2e"
  by code_simp

lemma ex_training_grid:
  "training_grid ex_distance ex_to_crs ex_edges ex_sensors_info records weather_df =
   dataset_rows weather_df (map_of ex_edict) (bike_lookup (bike_df ex_s2e records))
     (edges_with_sensors ex_s2e) (timestamps (bike_df ex_s2e records))"
  using ex_sensor_to_edge ex_edges_dict
  by (simp add: training_grid_def ex_sensors_def Let_def)

lemma ex_grid:
  "map_sum id (map (\<lambda>r. (edge_id r, timestamp r, bike_count r, temperature_c r)))
     (dataset_rows ex_weather (map_of ex_edict) (bike_lookup (bike_df ex_s2e ex_records))
        (edges_with_sensors ex_s2e) (timestamps (bike_df ex_s2e ex_records))) =
   Inr [(101, t07, Some 8, Some 8), (202, t07, None, Some 8), (101, t08, None, Some 8),
        (202, t08, Some 6, Some 8), (101, t09, Some 4, Some 12), (202, t09, None, Some 12)]"
  by code_simp

section \<open>The claims about the matching, on the small run\<close>

theorem sensors_list_skips_falsy_witness:
  "map s_counter_id (sensors_list ex_sensors_info) = [''S30'', ''S50'', ''S51'', ''S499''] \<and>
   \<not> truthy (i_lat (ex_info (Some 0) (Some 0.05))) \<and>
   \<not> truthy (i_lat (ex_info None (Some 0.05))) \<and>
   sensor_to_edge ex_distance ex_edges (sensors_lam ex_to_crs (sensors_list ex_sensors_info)) =
     Inr ex_s2e \<and>
   ''Z0'' \<notin> fst ` set ex_s2e \<and> ''N0'' \<notin> fst ` set ex_s2e"
proof -
  have run: "sensor_to_edge ex_distance ex_edges (sensors_lam ex_to_crs (sensors_list ex_sensors_info)) =
     Inr ex_s2e"
    using ex_sensor_to_edge by (simp add: ex_sensors_def)
  have ids: "map s_counter_id (sensors_list ex_sensors_info) = [''S30'', ''S50'', ''S51'', ''S499'']"
    by code_simp
  have zero: "\<not> truthy (i_lat (ex_info (Some 0) (Some 0.05)))"
    "\<not> truthy (i_lat (ex_info None (Some 0.05)))"
    by (simp_all add: ex_info_def truthy_def)
  have falsy: "\<not> (\<exists>info. (c, info) \<in> set ex_sensors_info \<and> truthy (i_lat info) \<and> truthy (i_lon info))"
    if "c = ''Z0'' \<or> c = ''N0''" for c
    using that by (auto simp: ex_sensors_info_def ex_info_def truthy_def)
  from sensors_list_skips_falsy [of ex_sensors_info None ex_distance ex_edges ex_to_crs ex_s2e] run
  have "\<forall>c \<in> fst ` set ex_s2e. \<exists>info. (c, info) \<in> set ex_sensors_info \<and>
          truthy (i_lat info) \<and> truthy (i_lon info)"
    by blast
  with falsy have "''Z0'' \<notin> fst ` set ex_s2e" "''N0'' \<notin> fst ` set ex_s2e"
    by blast+
  with run ids zero show ?thesis
    by simp
qed

theorem sensor_to_edge_threshold_witness:
  "ex_edges \<noteq> [] \<and> distinct (map s_counter_id ex_sensors) \<and>
   map (\<lambda>s. ex_distance (o_coords (ex_edges ! 0)) (s_geometry s)) ex_sensors = [30, 50, 51, 950.1] \<and>
   map (\<lambda>s. ex_distance (o_coords (ex_edges ! 1)) (s_geometry s)) ex_sensors = [970, 950, 949, 49.9] \<and>
   (\<exists>s2e. sensor_to_edge ex_distance ex_edges ex_sensors = Inr s2e \<and>
      map (\<lambda>s. map_option a_edge_id (map_of s2e (s_counter_id s))) ex_sensors =
        [Some 101, Some 101, None, Some 202])"
proof -
  have ne: "ex_edges \<noteq> []"
    by (simp add: ex_edges_def)
  have d: "distinct (map s_counter_id ex_sensors)"
    by code_simp
  have d0: "map (\<lambda>s. ex_distance (o_coords (ex_edges ! 0)) (s_geometry s)) ex_sensors = [30, 50, 51, 950.1]"
    by code_simp
  have d1: "map (\<lambda>s. ex_distance (o_coords (ex_edges ! 1)) (s_geometry s)) ex_sensors = [970, 950, 949, 49.9]"
    by code_simp
  from sensor_to_edge_threshold [OF ne d, of ex_distance] obtain s2e where
    r: "sensor_to_edge ex_distance ex_edges ex_sensors = Inr s2e"
    by blast
  with ex_sensor_to_edge have "s2e = ex_s2e"
    by simp
  moreover have "map (\<lambda>s. map_option a_edge_id (map_of ex_s2e (s_counter_id s))) ex_sensors =
        [Some 101, Some 101, None, Some 202]"
    by code_simp
  ultimately show ?thesis
    using ne d d0 d1 r by simp
qed

section \<open>The grid\<close>

text \<open>
  Claim C1. With a weather series that is not empty and every edge with a sensor in the
  dictionary of the edges (both hold when the script reaches step 8), the grid is
  built without an exception and has exactly one row for every pair of an edge with a
  sensor and a timestamp of the count data: as many rows as the number of distinct
  edges times the number of distinct timestamps, no key twice, and the keys are the
  whole cross product.
\<close>

theorem grid_is_cross_product:
  assumes "weather_df \<noteq> []" and "set (edges_with_sensors s2e) \<subseteq> dom edict"
  shows "\<exists>rows.
     dataset_rows weather_df edict lookup (edges_with_sensors s2e) (timestamps df) = Inr rows \<and>
     length rows = card ((\<lambda>(c, info). a_edge_id info) ` set s2e) * card (b_timestamp ` set df) \<and>
     distinct (map (\<lambda>r. (edge_id r, timestamp r)) rows) \<and>
     set (map (\<lambda>r. (edge_id r, timestamp r)) rows) =
       ((\<lambda>(c, info). a_edge_id info) ` set s2e) \<times> (b_timestamp ` set df)"
proof -
  let ?ews = "edges_with_sensors s2e" and ?tss = "timestamps df"
  have ews: "distinct ?ews" "set ?ews = (\<lambda>(c, info). a_edge_id info) ` set s2e"
    by (simp_all add: edges_with_sensors_def)
  have tss: "distinct ?tss" "set ?tss = b_timestamp ` set df"
    by (simp_all add: timestamps_def)
  from ews have le: "length ?ews = card ((\<lambda>(c, info). a_edge_id info) ` set s2e)"
    by (metis distinct_card)
  from tss have lt: "length ?tss = card (b_timestamp ` set df)"
    by (metis distinct_card)
  from dataset_rows_keys [OF assms, of lookup ?tss] obtain rows where
    r: "dataset_rows weather_df edict lookup ?ews ?tss = Inr rows" and
    k: "map (\<lambda>r. (edge_id r, timestamp r)) rows = concat (map (\<lambda>ts. map (\<lambda>e. (e, ts)) ?ews) ?tss)"
    by blast
  from k have "length rows = length (concat (map (\<lambda>ts. map (\<lambda>e. (e, ts)) ?ews) ?tss))"
    by (metis length_map)
  then have len: "length rows =
      card ((\<lambda>(c, info). a_edge_id info) ` set s2e) * card (b_timestamp ` set df)"
    by (simp only: cross_product_keys(1) le lt)
  have dis: "distinct (map (\<lambda>r. (edge_id r, timestamp r)) rows)"
    unfolding k using ews(1) tss(1) by (rule cross_product_keys(3))
  have st: "set (map (\<lambda>r. (edge_id r, timestamp r)) rows) =
       ((\<lambda>(c, info). a_edge_id info) ` set s2e) \<times> (b_timestamp ` set df)"
    unfolding k cross_product_keys(2) ews(2) tss(2) ..
  from r len dis st show ?thesis
    by blast
qed

theorem grid_is_cross_product_witness:
  "ex_weather \<noteq> [] \<and> set (edges_with_sensors ex_s2e) \<subseteq> dom (map_of ex_edict) \<and>
   (\<lambda>(c, info). a_edge_id info) ` set ex_s2e = {101, 202} \<and>
   b_timestamp ` set (bike_df ex_s2e ex_records) = {t07, t08, t09} \<and>
   (\<exists>rows.
      dataset_rows ex_weather (map_of ex_edict) (bike_lookup (bike_df ex_s2e ex_records))
        (edges_with_sensors ex_s2e) (timestamps (bike_df ex_s2e ex_records)) = Inr rows \<and>
      length rows = 6 \<and>
      distinct (map (\<lambda>r. (edge_id r, timestamp r)) rows) \<and>
      set (map (\<lambda>r. (edge_id r, timestamp r)) rows) = {101, 202} \<times> {t07, t08, t09})"
proof -
  have w: "ex_weather \<noteq> []"
    by (simp add: ex_weather_def)
  have e: "set (edges_with_sensors ex_s2e) \<subseteq> dom (map_of ex_edict)"
    by (simp add: edges_with_sensors_def ex_s2e_def ex_assoc_def ex_edict_def)
  have es: "(\<lambda>(c, info). a_edge_id info) ` set ex_s2e = {101, 202}"
    by (simp add: ex_s2e_def ex_assoc_def)
  have ts: "b_timestamp ` set (bike_df ex_s2e ex_records) = {t07, t08, t09}"
    by (simp add: bike_df_def ex_s2e_def ex_records_def ex_record_def List.map_filter_simps)
  have c1: "card {101, 202 :: int} = 2"
    by simp
  have c2: "card {t07, t08, t09} = 3"
    by (simp add: t07_def t08_def t09_def ns_per_hour_def)
  from grid_is_cross_product [OF w e, of "bike_lookup (bike_df ex_s2e ex_records)"
      "bike_df ex_s2e ex_records"]
  show ?thesis
    unfolding es ts c1 c2 using w e by simp
qed

text \<open>
  Claim C4. The count lookup of an edge and a timestamp is the sum of the counts of all
  count records of that timestamp whose counter is associated with that edge, and it
  has no entry when there is no such record. In the small run the counters S30 and S50
  are both on edge 101 and count 3 and 5 at 07:00: the row of edge 101 at 07:00 has the
  count 8.
\<close>

theorem bike_lookup_sums_counts:
  "bike_lookup (bike_df s2e records) (e, t) =
     (let cs = map b_count
                 (filter (\<lambda>r. map_option a_edge_id (map_of s2e (b_counter_id r)) = Some e \<and>
                               b_timestamp r = t) records)
      in if cs = [] then None else Some (sum_list cs)) \<and>
   map_option a_edge_id (map_of ex_s2e ''S30'') = Some 101 \<and>
   map_option a_edge_id (map_of ex_s2e ''S50'') = Some 101 \<and>
   take 2 ex_records = [ex_record ''S30'' t07 3, ex_record ''S50'' t07 5] \<and>
   bike_lookup (bike_df ex_s2e ex_records) (101, t07) = Some 8 \<and>
   map_sum id (map (\<lambda>r. (edge_id r, timestamp r, bike_count r)))
     (training_grid ex_distance ex_to_crs ex_edges ex_sensors_info ex_records ex_weather) =
   Inr [(101, t07, Some 8), (202, t07, None), (101, t08, None),
        (202, t08, Some 6), (101, t09, Some 4), (202, t09, None)]"
proof -
  have a: "map_option a_edge_id (map_of ex_s2e ''S30'') = Some 101"
    "map_option a_edge_id (map_of ex_s2e ''S50'') = Some 101"
    "take 2 ex_records = [ex_record ''S30'' t07 3, ex_record ''S50'' t07 5]"
    by (simp_all add: ex_s2e_def ex_assoc_def ex_records_def)
  have b: "bike_lookup (bike_df ex_s2e ex_records) (101, t07) = Some 8"
    by code_simp
  have c: "map_sum id (map (\<lambda>r. (edge_id r, timestamp r, bike_count r)))
     (dataset_rows ex_weather (map_of ex_edict) (bike_lookup (bike_df ex_s2e ex_records))
        (edges_with_sensors ex_s2e) (timestamps (bike_df ex_s2e ex_records))) =
   Inr [(101, t07, Some 8), (202, t07, None), (101, t08, None),
        (202, t08, Some 6), (101, t09, Some 4), (202, t09, None)]"
    by code_simp
  from a b c pipeline_lookup_sum [of s2e records e t] show ?thesis
    by (simp add: ex_training_grid)
qed

text \<open>
  Claim C5. In every row of the grid the target is the entry of the count lookup for
  the key of the row: null exactly when no count record has the timestamp of the row
  and a counter associated with the edge of the row, and otherwise the sum of the
  counts of these records (which may be 0).
\<close>

theorem bike_count_null_or_sum:
  assumes "dataset_rows weather_df edict (bike_lookup (bike_df s2e records)) ews tss = Inr rows"
    and "row \<in> set rows"
  shows "bike_count row =
     (let cs = map b_count
                 (filter (\<lambda>r. map_option a_edge_id (map_of s2e (b_counter_id r)) = Some (edge_id row) \<and>
                               b_timestamp r = timestamp row) records)
      in if cs = [] then None else Some (sum_list cs)) \<and>
   (bike_count row = None) =
     (filter (\<lambda>r. map_option a_edge_id (map_of s2e (b_counter_id r)) = Some (edge_id row) \<and>
                   b_timestamp r = timestamp row) records = [])"
proof -
  from dataset_rows_elem [OF assms] obtain w where
    "make_row (timestamp row) w edict (bike_lookup (bike_df s2e records)) (edge_id row) = Inr row"
    by blast
  from make_row_fields [OF this]
  have "bike_count row = bike_lookup (bike_df s2e records) (edge_id row, timestamp row)"
    by simp
  then have eq: "bike_count row =
     (let cs = map b_count
                 (filter (\<lambda>r. map_option a_edge_id (map_of s2e (b_counter_id r)) = Some (edge_id row) \<and>
                               b_timestamp r = timestamp row) records)
      in if cs = [] then None else Some (sum_list cs))"
    by (simp only: pipeline_lookup_sum)
  then have "(bike_count row = None) =
     (filter (\<lambda>r. map_option a_edge_id (map_of s2e (b_counter_id r)) = Some (edge_id row) \<and>
                   b_timestamp r = timestamp row) records = [])"
    by (simp add: Let_def)
  with eq show ?thesis
    by (rule conjI)
qed

theorem bike_count_null_or_sum_witness:
  "\<exists>rows row.
     dataset_rows ex_weather (map_of ex_edict) (bike_lookup (bike_df ex_s2e ex_records))
       (edges_with_sensors ex_s2e) (timestamps (bike_df ex_s2e ex_records)) = Inr rows \<and>
     row \<in> set rows \<and> edge_id row = 101 \<and> timestamp row = t08 \<and> bike_count row = None \<and>
     filter (\<lambda>r. map_option a_edge_id (map_of ex_s2e (b_counter_id r)) = Some 101 \<and>
                 b_timestamp r = t08) ex_records = []"
proof -
  from dataset_rows_keys [of ex_weather "edges_with_sensors ex_s2e" "map_of ex_edict"
      "bike_lookup (bike_df ex_s2e ex_records)" "timestamps (bike_df ex_s2e ex_records)"]
  obtain rows where
    r: "dataset_rows ex_weather (map_of ex_edict) (bike_lookup (bike_df ex_s2e ex_records))
       (edges_with_sensors ex_s2e) (timestamps (bike_df ex_s2e ex_records)) = Inr rows" and
    k: "map (\<lambda>r. (edge_id r, timestamp r)) rows =
        concat (map (\<lambda>ts. map (\<lambda>e. (e, ts)) (edges_with_sensors ex_s2e))
          (timestamps (bike_df ex_s2e ex_records)))"
    by (auto simp: ex_weather_def edges_with_sensors_def ex_s2e_def ex_assoc_def ex_edict_def)
  have "concat (map (\<lambda>ts. map (\<lambda>e. (e, ts)) (edges_with_sensors ex_s2e))
          (timestamps (bike_df ex_s2e ex_records))) =
        [(101, t07), (202, t07), (101, t08), (202, t08), (101, t09), (202, t09)]"
    by code_simp
  with k have "(101, t08) \<in> set (map (\<lambda>r. (edge_id r, timestamp r)) rows)"
    by simp
  then obtain row where row: "row \<in> set rows" "edge_id row = 101" "timestamp row = t08"
    by auto
  have none: "filter (\<lambda>r. map_option a_edge_id (map_of ex_s2e (b_counter_id r)) = Some 101 \<and>
                 b_timestamp r = t08) ex_records = []"
    by code_simp
  from bike_count_null_or_sum [OF r row(1)] row(2,3) none have "bike_count row = None"
    by simp
  with r row none show ?thesis
    by blast
qed

section \<open>The weather of a row\<close>

text \<open>
  Where the lookup does what is intended. When the weather series is sorted by
  timestamp and holds a record at or before the timestamp of the grid, the lookup
  raises nothing and selects a record of the series at or before the timestamp, such
  that no record at or before the timestamp is later: the exact match when there is
  one, otherwise the nearest earlier record, never a later one. Every row of the grid
  with this timestamp carries the weather of the selected record.
\<close>

lemma weather_row_exact_or_nearest_prior:
  assumes "sorted (map w_timestamp weather_df)" and "u \<in> set weather_df"
    and "w_timestamp u \<le> ts"
  shows "\<exists>w. weather_row weather_df ts = Inr w \<and> w \<in> set weather_df \<and> w_timestamp w \<le> ts \<and>
     (\<forall>w' \<in> set weather_df. w_timestamp w' \<le> ts \<longrightarrow> w_timestamp w' \<le> w_timestamp w) \<and>
     (ts \<in> w_timestamp ` set weather_df \<longrightarrow> w_timestamp w = ts) \<and>
     (\<forall>rows. dataset_rows weather_df edict lookup ews tss = Inr rows \<longrightarrow>
        (\<forall>row \<in> set rows. timestamp row = ts \<longrightarrow>
           temperature_c row = w_temperature_c w \<and>
           precipitation_mm row = w_precipitation_mm w \<and>
           wind_speed_kmh row = w_wind_speed_kmh w \<and>
           is_raining row = w_is_raining w))"
proof -
  from weather_row_nearest_prior [OF assms] obtain w where
    w: "weather_row weather_df ts = Inr w" "w \<in> set weather_df" "w_timestamp w \<le> ts"
      "\<forall>w' \<in> set weather_df. w_timestamp w' \<le> ts \<longrightarrow> w_timestamp w' \<le> w_timestamp w"
    by blast
  have exact: "w_timestamp w = ts" if "ts \<in> w_timestamp ` set weather_df"
  proof -
    from that obtain x where "x \<in> set weather_df" "w_timestamp x = ts"
      by auto
    with w(4) have "ts \<le> w_timestamp w"
      by auto
    with w(3) show ?thesis
      by simp
  qed
  have grid: "temperature_c row = w_temperature_c w \<and>
           precipitation_mm row = w_precipitation_mm w \<and>
           wind_speed_kmh row = w_wind_speed_kmh w \<and>
           is_raining row = w_is_raining w"
    if "dataset_rows weather_df edict lookup ews tss = Inr rows" "row \<in> set rows"
      "timestamp row = ts" for rows row
  proof -
    from dataset_rows_elem [OF that(1,2)] that(3) w(1)
    have "make_row ts w edict lookup (edge_id row) = Inr row"
      by auto
    from make_row_fields [OF this] show ?thesis
      by simp
  qed
  from w exact grid show ?thesis
    by blast
qed

lemma weather_row_exact_or_nearest_prior_example:
  "sorted (map w_timestamp ex_weather) \<and> map w_timestamp ex_weather = [t07, t09] \<and>
   ex_w t07 8 \<in> set ex_weather \<and> w_timestamp (ex_w t07 8) \<le> t08 \<and> t08 < t09 \<and>
   weather_row ex_weather t08 = Inr (ex_w t07 8) \<and>
   weather_row ex_weather t09 = Inr (ex_w t09 12)"
proof -
  have s: "sorted (map w_timestamp ex_weather)" "map w_timestamp ex_weather = [t07, t09]"
    "ex_w t07 8 \<in> set ex_weather" "w_timestamp (ex_w t07 8) \<le> t08" "t08 < t09"
    "w_timestamp (ex_w t09 12) \<le> t09" "ex_w t09 12 \<in> set ex_weather"
    by (simp_all add: ex_weather_def ex_w_def t07_def t08_def t09_def ns_per_hour_def)
  from weather_row_exact_or_nearest_prior [OF s(1) s(3) s(4)] obtain w where
    w: "weather_row ex_weather t08 = Inr w" "w \<in> set ex_weather" "w_timestamp w \<le> t08"
    by blast
  from w(2,3) s(5) have "w = ex_w t07 8"
    by (auto simp: ex_weather_def ex_w_def)
  with w(1) have a: "weather_row ex_weather t08 = Inr (ex_w t07 8)"
    by simp
  from weather_row_exact_or_nearest_prior [OF s(1) s(7) s(6)] obtain w' where
    w': "weather_row ex_weather t09 = Inr w'" "w' \<in> set ex_weather"
      "t09 \<in> w_timestamp ` set ex_weather \<longrightarrow> w_timestamp w' = t09"
    by blast
  from w'(2,3) s(5) have "w' = ex_w t09 12"
    by (auto simp: ex_weather_def ex_w_def t07_def t08_def t09_def ns_per_hour_def)
  with w'(1) have b: "weather_row ex_weather t09 = Inr (ex_w t09 12)"
    by simp
  from s a b show ?thesis
    by simp
qed

text \<open>
  Claim C2. The claim says that the weather lookup never selects a record later than
  the timestamp of the grid, and that a timestamp with no record at or before it gives
  a failure of the lookup and null weather in its rows. Line 399 takes the position
  \<open>searchsorted(ts) - 1\<close> without a test for 0: for a timestamp before the whole
  series the position is -1, which \<open>iloc\<close> counts from the end. With weather records at
  08:00, 09:00 and 10:00 and counts from 07:00 on, the lookup for 07:00 raises nothing
  and selects the last record, of 10:00, and the rows of 07:00 carry the temperature of
  10:00; the rows of 08:00 and 09:00 carry their own.
\<close>

theorem weather_row_no_prior_selects_last:
  "map w_timestamp ex_weather_late = [t08, t09, t10] \<and> t07 < t08 \<and> t07 < t10 \<and>
   searchsorted (map w_timestamp ex_weather_late) t07 = 0 \<and>
   weather_row ex_weather_late t07 = Inr (ex_w t10 15) \<and>
   map_sum id (map (\<lambda>r. (edge_id r, timestamp r, temperature_c r)))
     (training_grid ex_distance ex_to_crs ex_edges ex_sensors_info ex_records ex_weather_late) =
   Inr [(101, t07, Some 15), (202, t07, Some 15), (101, t08, Some 10),
        (202, t08, Some 10), (101, t09, Some 12), (202, t09, Some 12)]"
proof -
  have a: "map w_timestamp ex_weather_late = [t08, t09, t10]" "t07 < t08" "t07 < t10"
    by (simp_all add: ex_weather_late_def ex_w_def t07_def t08_def t10_def ns_per_hour_def)
  have b: "searchsorted (map w_timestamp ex_weather_late) t07 = 0"
    "weather_row ex_weather_late t07 = Inr (ex_w t10 15)"
    by code_simp+
  have c: "map_sum id (map (\<lambda>r. (edge_id r, timestamp r, temperature_c r)))
     (dataset_rows ex_weather_late (map_of ex_edict) (bike_lookup (bike_df ex_s2e ex_records))
        (edges_with_sensors ex_s2e) (timestamps (bike_df ex_s2e ex_records))) =
   Inr [(101, t07, Some 15), (202, t07, Some 15), (101, t08, Some 10),
        (202, t08, Some 10), (101, t09, Some 12), (202, t09, Some 12)]"
    by code_simp
  from a b c show ?thesis
    by (simp add: ex_training_grid)
qed

section \<open>Lag and rolling features\<close>

lemma sorted_le_last: "sorted ys \<Longrightarrow> y \<in> set ys \<Longrightarrow> y \<le> last ys"
proof (induction ys)
  case Nil
  then show ?case by simp
next
  case (Cons a ys)
  then show ?case
    by (cases "ys = []") auto
qed

lemma sorted_suffix_split:
  assumes srt: "sorted (map f xs)" and ne: "xs \<noteq> []"
  shows "\<exists>us vs. xs = us @ vs \<and> vs \<noteq> [] \<and> (\<forall>u \<in> set us. f u \<noteq> f (last xs)) \<and>
           (\<forall>v \<in> set vs. f v = f (last xs))"
proof -
  let ?e = "f (last xs)"
  let ?P = "\<lambda>r. f r \<noteq> ?e"
  let ?us = "takeWhile ?P xs" and ?vs = "dropWhile ?P xs"
  have split: "xs = ?us @ ?vs"
    by simp
  from ne have "last xs \<in> set xs"
    by simp
  then have vs_ne: "?vs \<noteq> []"
    by auto
  have us: "\<forall>u \<in> set ?us. f u \<noteq> ?e"
    using set_takeWhileD [of _ ?P xs] by blast
  from hd_dropWhile [OF vs_ne] have hd: "f (hd ?vs) = ?e"
    by simp
  from srt have "sorted (map f ?us @ map f ?vs)"
    by (metis map_append split)
  then have svs: "sorted (map f ?vs)"
    by (simp add: sorted_append)
  have vs: "f v = ?e" if v: "v \<in> set ?vs" for v
  proof -
    from vs_ne obtain z zs where z: "?vs = z # zs"
      by (cases ?vs) auto
    with hd have fz: "f z = ?e"
      by simp
    from svs z have "\<forall>y \<in> set (map f zs). f z \<le> y"
      by simp
    with v z fz have low: "?e \<le> f v"
      by auto
    from v have "v \<in> set xs"
      by (rule set_dropWhileD)
    then have "f v \<in> set (map f xs)"
      by simp
    from sorted_le_last [OF srt this] ne have "f v \<le> ?e"
      by (simp add: last_map)
    with low show ?thesis
      by simp
  qed
  from split vs_ne us vs show ?thesis
    by blast
qed

lemma group_split:
  assumes "sorted (map edge_id df)" and "i < length df"
  shows "\<exists>us vs. take (Suc i) df = us @ vs \<and> vs \<noteq> [] \<and>
           (\<forall>u \<in> set us. edge_id u \<noteq> edge_id (df ! i)) \<and>
           (\<forall>v \<in> set vs. edge_id v = edge_id (df ! i)) \<and>
           group_upto df i = map bike_count vs"
proof -
  let ?xs = "take (Suc i) df"
  from assms(2) have ne: "?xs \<noteq> []"
    by auto
  from assms(2) have last: "last ?xs = df ! i"
    by (simp add: take_Suc_conv_app_nth)
  from assms(1) have "sorted (take (Suc i) (map edge_id df))"
    by (rule sorted_wrt_take)
  then have "sorted (map edge_id ?xs)"
    by (simp add: take_map)
  from sorted_suffix_split [OF this ne] obtain us vs where
    s: "?xs = us @ vs" "vs \<noteq> []" "\<forall>u \<in> set us. edge_id u \<noteq> edge_id (df ! i)"
      "\<forall>v \<in> set vs. edge_id v = edge_id (df ! i)"
    unfolding last by blast
  from s(3,4) have "filter (\<lambda>r. edge_id r = edge_id (df ! i)) (us @ vs) = vs"
    by (simp add: filter_empty_conv filter_id_conv)
  with s(1) have "group_upto df i = map bike_count vs"
    by (simp add: group_upto_def)
  with s show ?thesis
    by blast
qed

lemma shift_positional:
  assumes "sorted (map edge_id df)" and "i < length df"
  shows "shift_at n (group_upto df i) =
     (if n \<le> i \<and> edge_id (df ! (i - n)) = edge_id (df ! i) then bike_count (df ! (i - n)) else None)"
proof -
  from group_split [OF assms] obtain us vs where
    s: "take (Suc i) df = us @ vs" "vs \<noteq> []" "\<forall>u \<in> set us. edge_id u \<noteq> edge_id (df ! i)"
      "\<forall>v \<in> set vs. edge_id v = edge_id (df ! i)" and
    g: "group_upto df i = map bike_count vs"
    by blast
  from s(1) assms(2) have len: "length us + length vs = Suc i"
    by (metis length_append length_take min.absorb2 Suc_leI)
  have at: "df ! j = (us @ vs) ! j" if "j \<le> i" for j
    using that s(1) by (metis le_imp_less_Suc nth_take)
  show ?thesis
  proof (cases "n < length vs")
    case True
    with len have n: "n \<le> i" and ix: "i - n = length us + (length vs - 1 - n)"
      by simp_all
    from True have in_vs: "length vs - 1 - n < length vs"
      by simp
    from at [of "i - n"] ix have eq: "df ! (i - n) = vs ! (length vs - 1 - n)"
      by (simp add: nth_append)
    from in_vs s(4) have "edge_id (vs ! (length vs - 1 - n)) = edge_id (df ! i)"
      by simp
    with True n eq g show ?thesis
      by (simp add: shift_at_def)
  next
    case False
    have "\<not> (n \<le> i \<and> edge_id (df ! (i - n)) = edge_id (df ! i))"
    proof
      assume a: "n \<le> i \<and> edge_id (df ! (i - n)) = edge_id (df ! i)"
      with False len have lt: "i - n < length us"
        by arith
      with at [of "i - n"] have "df ! (i - n) = us ! (i - n)"
        by (simp add: nth_append)
      with lt s(3) a show False
        by simp
    qed
    with False g show ?thesis
      by (auto simp: shift_at_def)
  qed
qed

lemma window_positional:
  assumes "sorted (map edge_id df)" and "i < length df"
  shows "drop (length (group_upto df i) - w) (group_upto df i) =
     map bike_count
       (filter (\<lambda>r. edge_id r = edge_id (df ! i)) (drop (Suc i - w) (take (Suc i) df)))"
proof -
  from group_split [OF assms] obtain us vs where
    s: "take (Suc i) df = us @ vs" "vs \<noteq> []" "\<forall>u \<in> set us. edge_id u \<noteq> edge_id (df ! i)"
      "\<forall>v \<in> set vs. edge_id v = edge_id (df ! i)" and
    g: "group_upto df i = map bike_count vs"
    by blast
  let ?P = "\<lambda>r. edge_id r = edge_id (df ! i)"
  from s(1) assms(2) have len: "length us + length vs = Suc i"
    by (metis length_append length_take min.absorb2 Suc_leI)
  have us: "filter ?P (drop k us) = []" for k
    using s(3) by (auto simp: filter_empty_conv dest: in_set_dropD)
  have vs: "filter ?P (drop k vs) = drop k vs" for k
    using s(4) by (auto simp: filter_id_conv dest: in_set_dropD)
  from len have "Suc i - w - length us = length vs - w"
    by simp
  then have "filter ?P (drop (Suc i - w) (us @ vs)) = drop (length vs - w) vs"
    by (simp add: us vs)
  with s(1) g show ?thesis
    by (simp add: drop_map)
qed

lemma sorted_by_edge:
  "sorted (map (\<lambda>r. (edge_id r, timestamp r)) df) \<Longrightarrow> sorted (map edge_id df)"
proof -
  assume "sorted (map (\<lambda>r. (edge_id r, timestamp r)) df)"
  then have "sorted_wrt (\<lambda>x y. (edge_id x, timestamp x) \<le> (edge_id y, timestamp y)) df"
    by (simp add: sorted_map)
  then have "sorted_wrt (\<lambda>x y. edge_id x \<le> edge_id y) df"
    by (rule sorted_wrt_mono_rel [rotated]) auto
  then show ?thesis
    by (simp add: sorted_map)
qed

lemma sort_values_sorted:
  "sorted (map (\<lambda>r. (edge_id r, timestamp r)) (sort_values rows))"
  "set (sort_values rows) = set rows" "length (sort_values rows) = length rows"
  by (simp_all add: sort_values_def sorted_sort_key)

lemma ex_grid_seq_sorted:
  "map (\<lambda>r. (edge_id r, timestamp r, bike_count r)) (sort_values ex_grid_seq) =
     [(101, t07, Some 10), (101, t08, Some 20), (101, t09, Some 30),
      (202, t07, None), (202, t08, None), (202, t09, None)]"
  by code_simp

lemma ex_grid_seq_lags:
  "bike_count_lag_1h (sort_values ex_grid_seq) = [None, Some 10, Some 20, None, None, None]"
  "bike_count_lag_24h (sort_values ex_grid_seq) = [None, None, None, None, None, None]"
  "bike_count_rolling_7d (sort_values ex_grid_seq) = [Some 10, Some 15, Some 20, None, None, None]"
  by code_simp+

lemma map_filter_map_id: "List.map_filter (\<lambda>v. v) (map g xs) = List.map_filter g xs"
  by (induction xs) (simp_all add: List.map_filter_simps split: option.splits)

lemma rolling_positional:
  assumes "sorted (map edge_id df)" and "i < length df"
  shows "rolling_mean_at w 1 (group_upto df i) =
     (let obs = List.map_filter bike_count
                  (filter (\<lambda>r. edge_id r = edge_id (df ! i)) (drop (Suc i - w) (take (Suc i) df)))
      in if obs = [] then None else Some (real_of_int (sum_list obs) / real (length obs)))"
proof -
  have "(length obs < 1 \<or> obs = []) = (obs = [])" for obs :: "int list"
    by auto
  then show ?thesis
    unfolding rolling_mean_at_def window_positional [OF assms] map_filter_map_id
    by simp
qed

text \<open>
  Claim C6. Let the frame be sorted by edge identifier and timestamp (the sorted frame
  has the rows of the grid, in sorted order). Then at every row the lag of one hour
  is the target of the row one position before, and the lag of 24 hours the target of
  the row 24 positions before, when that row exists and has the same edge, and null
  otherwise; the rolling value is the mean of the targets that are not null among the
  rows of the same edge in the last 168 positions up to the row, and null when there is
  none. No value crosses from one edge to the next. On a grid whose edge 101 has the
  targets 10, 20, 30 and whose edge 202 has no counts, the lag of one hour is
  null, 10, 20 and the rolling mean 10, 15, 20 on edge 101, and both are null on all
  rows of edge 202.
\<close>

theorem lag_and_rolling_per_edge:
  assumes "i < length rows"
  shows "sorted (map (\<lambda>r. (edge_id r, timestamp r)) (sort_values rows)) \<and>
     set (sort_values rows) = set rows \<and> length (sort_values rows) = length rows \<and>
     length (bike_count_lag_1h (sort_values rows)) = length rows \<and>
     length (bike_count_lag_24h (sort_values rows)) = length rows \<and>
     length (bike_count_rolling_7d (sort_values rows)) = length rows \<and>
     bike_count_lag_1h (sort_values rows) ! i =
       (if 1 \<le> i \<and> edge_id (sort_values rows ! (i - 1)) = edge_id (sort_values rows ! i)
        then bike_count (sort_values rows ! (i - 1)) else None) \<and>
     bike_count_lag_24h (sort_values rows) ! i =
       (if 24 \<le> i \<and> edge_id (sort_values rows ! (i - 24)) = edge_id (sort_values rows ! i)
        then bike_count (sort_values rows ! (i - 24)) else None) \<and>
     bike_count_rolling_7d (sort_values rows) ! i =
       (let obs = List.map_filter bike_count
                    (filter (\<lambda>r. edge_id r = edge_id (sort_values rows ! i))
                       (drop (Suc i - 168) (take (Suc i) (sort_values rows))))
        in if obs = [] then None else Some (real_of_int (sum_list obs) / real (length obs))) \<and>
     map (\<lambda>r. (edge_id r, bike_count r)) (sort_values ex_grid_seq) =
       [(101, Some 10), (101, Some 20), (101, Some 30), (202, None), (202, None), (202, None)] \<and>
     bike_count_lag_1h (sort_values ex_grid_seq) = [None, Some 10, Some 20, None, None, None] \<and>
     bike_count_rolling_7d (sort_values ex_grid_seq) =
       [Some 10, Some 15, Some 20, None, None, None]"
proof -
  let ?df = "sort_values rows"
  note sv = sort_values_sorted [of rows]
  from sv(1) have srt: "sorted (map edge_id ?df)"
    by (rule sorted_by_edge)
  from assms sv(3) have i: "i < length ?df"
    by simp
  have lens: "length (bike_count_lag_1h ?df) = length rows"
    "length (bike_count_lag_24h ?df) = length rows"
    "length (bike_count_rolling_7d ?df) = length rows"
    by (simp_all add: bike_count_lag_1h_def bike_count_lag_24h_def bike_count_rolling_7d_def sv(3))
  from i have l1: "bike_count_lag_1h ?df ! i = shift_at 1 (group_upto ?df i)"
    by (simp add: bike_count_lag_1h_def)
  from i have l24: "bike_count_lag_24h ?df ! i = shift_at 24 (group_upto ?df i)"
    by (simp add: bike_count_lag_24h_def)
  from i have r7: "bike_count_rolling_7d ?df ! i = rolling_mean_at 168 1 (group_upto ?df i)"
    by (simp add: bike_count_rolling_7d_def)
  have ex: "map (\<lambda>r. (edge_id r, bike_count r)) (sort_values ex_grid_seq) =
       [(101, Some 10), (101, Some 20), (101, Some 30), (202, None), (202, None), (202, None)]"
    by code_simp
  show ?thesis
    unfolding l1 l24 r7 shift_positional [OF srt i] rolling_positional [OF srt i]
    using sv lens ex ex_grid_seq_lags(1,3) by simp
qed

theorem lag_and_rolling_per_edge_witness:
  "3 < length ex_grid_seq \<and>
   edge_id (sort_values ex_grid_seq ! 2) = 101 \<and> bike_count (sort_values ex_grid_seq ! 2) = Some 30 \<and>
   edge_id (sort_values ex_grid_seq ! 3) = 202 \<and>
   bike_count_lag_1h (sort_values ex_grid_seq) ! 3 = None \<and>
   bike_count_lag_24h (sort_values ex_grid_seq) ! 3 = None"
proof -
  have len: "3 < length ex_grid_seq"
    by code_simp
  have e: "edge_id (sort_values ex_grid_seq ! 2) = 101" "bike_count (sort_values ex_grid_seq ! 2) = Some 30"
    "edge_id (sort_values ex_grid_seq ! 3) = 202"
    by code_simp+
  from lag_and_rolling_per_edge [OF len] e
  have "bike_count_lag_1h (sort_values ex_grid_seq) ! 3 = None"
    "bike_count_lag_24h (sort_values ex_grid_seq) ! 3 = None"
    by simp_all
  with len e show ?thesis
    by simp
qed

section \<open>The orientation of an edge\<close>










end
